theory Spec2Isabelle
  imports Main "HOL-Library.Word" "HOL-Library.Signed_Division"
begin

section \<open>Memory and C strings\<close>

text \<open>
  A byte of storage is a \<open>cell\<close>: \<open>None\<close> while nothing has been stored in it
  (the contents of \<^verbatim>\<open>new char[n]\<close> and of the caller's buffer on entry),
  \<open>Some c\<close> afterwards. A pointer names the block it points to: the memory of the
  format string, the caller's buffer, or the k-th block obtained from \<^verbatim>\<open>new[]\<close>
  during the call. Sizes (\<^verbatim>\<open>size_t\<close>) are natural numbers: a block of
  \<open>2^63\<close> bytes cannot exist, so sums and doublings of sizes do not wrap. Where the
  source subtracts sizes (\<^verbatim>\<open>RemainingSpace\<close>) or relies on wrap-around
  (\<^verbatim>\<open>MoveCurrentPos\<close> called with a negative \<^verbatim>\<open>ssize_t\<close>), the reduction
  modulo \<open>2^64\<close> of a 64-bit \<^verbatim>\<open>size_t\<close> is written out. Indices and counts of
  type \<^verbatim>\<open>ssize_t\<close> and \<^verbatim>\<open>int\<close> are integers.
\<close>

type_synonym cell = "char option"

datatype ptr = FmtStr | StaticBuf | HeapBlock nat

definition NUL :: char where
  "NUL = CHR 0x00"

text \<open>\<^verbatim>\<open>s[i]\<close> for a zero-terminated string held as the list of its characters:
  the terminator is read at the end of the list.\<close>

definition char_at :: "string \<Rightarrow> nat \<Rightarrow> char" where
  "char_at s i = (if i < length s then s ! i else NUL)"

text \<open>The same with the source's \<^verbatim>\<open>ssize_t\<close> index.\<close>

definition fmt_at :: "string \<Rightarrow> int \<Rightarrow> char" where
  "fmt_at s i = (if 0 \<le> i then char_at s (nat i) else NUL)"

text \<open>The characters of a C string: those before the first terminator.\<close>

definition c_str :: "string \<Rightarrow> string" where
  "c_str s = takeWhile (\<lambda>c. c \<noteq> NUL) s"

definition strlen :: "string \<Rightarrow> nat" where
  "strlen s = length (c_str s)"

text \<open>\<^verbatim>\<open>memcpy(dst, src, n)\<close> on the contents of two blocks.\<close>

definition memcpy :: "cell list \<Rightarrow> cell list \<Rightarrow> nat \<Rightarrow> cell list" where
  "memcpy dst src n = take n src @ drop n dst"

text \<open>Storing a run of bytes at an offset of a block.\<close>

fun write_at :: "cell list \<Rightarrow> nat \<Rightarrow> string \<Rightarrow> cell list" where
  "write_at d p [] = d"
| "write_at d p (c # cs) = write_at (d[p := Some c]) (Suc p) cs"

section \<open>StackBuffer\<close>

text \<open>
  The class \<^verbatim>\<open>StackBuffer\<close>. \<open>Buffer\<close> is the pointer, \<open>Data\<close> the contents of
  the block it points to. \<open>Allocs\<close> counts the blocks obtained from \<^verbatim>\<open>new[]\<close>
  and \<open>Freed\<close> lists the blocks given to \<^verbatim>\<open>delete[]\<close>.
\<close>

record StackBuffer =
  Buffer :: ptr
  Data :: "cell list"
  Pos :: nat
  Capacity :: nat
  OwnBuffer :: bool
  Allocs :: nat
  Freed :: "ptr list"

definition StackBuffer_new :: "nat \<Rightarrow> StackBuffer" where
  "StackBuffer_new staticbuf_size =
     \<lparr>Buffer = StaticBuf, Data = replicate staticbuf_size None, Pos = 0,
      Capacity = staticbuf_size, OwnBuffer = False, Allocs = 0, Freed = []\<rparr>"

definition Reserve :: "nat \<Rightarrow> StackBuffer \<Rightarrow> StackBuffer" where
  "Reserve bytes b =
     (if Pos b + bytes > Capacity b then
        let ncap0 = Capacity b * 2;
            ncap = (if ncap0 < Pos b + bytes then Pos b + bytes else ncap0);
            nbuf = memcpy (replicate ncap None) (Data b) (Pos b)
        in b\<lparr>Capacity := ncap,
              Freed := (if OwnBuffer b then Buffer b # Freed b else Freed b),
              OwnBuffer := True,
              Buffer := HeapBlock (Allocs b),
              Data := nbuf,
              Allocs := Suc (Allocs b)\<rparr>
      else b)"

text \<open>\<^verbatim>\<open>Pos += bytes\<close> with \<^verbatim>\<open>bytes\<close> a \<^verbatim>\<open>size_t\<close>: the engine
  passes negative \<^verbatim>\<open>ssize_t\<close> values, which the conversion and the addition
  reduce modulo \<open>2^64\<close>. The \<^verbatim>\<open>assert\<close> is compiled out in release builds.\<close>

definition MoveCurrentPos :: "int \<Rightarrow> StackBuffer \<Rightarrow> StackBuffer" where
  "MoveCurrentPos bytes b = b\<lparr>Pos := nat ((int (Pos b) + bytes) mod 2 ^ 64)\<rparr>"

text \<open>Returns the offset of the reserved region in the block, and the buffer.\<close>

definition AddUninitialized :: "nat \<Rightarrow> StackBuffer \<Rightarrow> nat \<times> StackBuffer" where
  "AddUninitialized bytes b =
     (let b1 = Reserve bytes b; p = Pos b1 in (p, b1\<lparr>Pos := Pos b1 + bytes\<rparr>))"

definition Add :: "char \<Rightarrow> StackBuffer \<Rightarrow> StackBuffer" where
  "Add c b = (let (p, b1) = AddUninitialized 1 b in b1\<lparr>Data := (Data b1)[p := Some c]\<rparr>)"

definition RemainingSpace :: "StackBuffer \<Rightarrow> nat" where
  "RemainingSpace b = nat ((int (Capacity b) - int (Pos b)) mod 2 ^ 64)"

text \<open>The invariant of the class: the cursor is inside the block, and the block has
  the recorded capacity.\<close>

definition buffer_ok :: "StackBuffer \<Rightarrow> bool" where
  "buffer_ok b \<longleftrightarrow> Pos b \<le> Capacity b \<and> length (Data b) = Capacity b"

section \<open>The formatting backend and the arguments\<close>

text \<open>
  The tagged union \<^verbatim>\<open>fmtarg\<close>. Integers are machine words; a double is held as
  its 64 bits, a wide string as its code units.
\<close>

datatype fmtarg =
    TNull
  | TPtr nat
  | TCStr string
  | TWStr "nat list"
  | TI32 "32 word"
  | TU32 "32 word"
  | TI64 "64 word"
  | TU64 "64 word"
  | TDbl "64 word"

text \<open>The value handed to the variadic \<^verbatim>\<open>fmt_snprintf\<close>.\<close>

datatype va_value =
    VaPtr nat
  | VaStr string
  | VaWStr "nat list"
  | VaInt32 "32 word"
  | VaInt64 "64 word"
  | VaDouble "64 word"

text \<open>
  \<^verbatim>\<open>vsnprintf\<close> belongs to the C library, not to this program: it is a parameter
  of the model. Given the size of the destination, the conversion specification and the
  value, it yields the bytes it stored in the destination and the \<^verbatim>\<open>int\<close> it
  returned.
\<close>

type_synonym backend = "nat \<Rightarrow> string \<Rightarrow> va_value \<Rightarrow> string \<times> int"

definition fmt_translate_snprintf_return_value :: "int \<Rightarrow> nat \<Rightarrow> int" where
  "fmt_translate_snprintf_return_value r count = (if r < 0 \<or> int count \<le> r then - 1 else r)"

definition fmt_snprintf :: "backend \<Rightarrow> nat \<Rightarrow> string \<Rightarrow> va_value \<Rightarrow> string \<times> int" where
  "fmt_snprintf vsnprintf count format_str va =
     (let (stored, r) = vsnprintf count (c_str format_str) va
      in (stored, fmt_translate_snprintf_return_value r count))"

text \<open>The platform constants selected by \<^verbatim>\<open>#ifdef _WIN32\<close>.\<close>

datatype platform = Win32 | Posix

definition i64Prefix :: "platform \<Rightarrow> string" where
  "i64Prefix pf = (case pf of Win32 \<Rightarrow> ''I64'' | Posix \<Rightarrow> ''ll'')"

definition wcharPrefix :: "platform \<Rightarrow> string" where
  "wcharPrefix pf = (case pf of Win32 \<Rightarrow> '''' | Posix \<Rightarrow> ''l'')"

definition wcharType :: "platform \<Rightarrow> char" where
  "wcharType pf = (case pf of Win32 \<Rightarrow> CHR ''S'' | Posix \<Rightarrow> CHR ''s'')"

definition argbuf_arraysize :: nat where
  "argbuf_arraysize = 16"

section \<open>format_string\<close>

text \<open>The copy loop of \<^verbatim>\<open>format_string\<close>; \<open>dest\<close> collects the bytes stored in
  the destination.\<close>

function format_string_loop :: "nat \<Rightarrow> string \<Rightarrow> nat \<Rightarrow> string \<Rightarrow> string \<times> int" where
  "format_string_loop count s i dest =
     (if i < count then
        (if char_at s i = NUL then (dest, int i)
         else format_string_loop count s (Suc i) (dest @ [char_at s i]))
      else (dest, - 1))"
  by pat_completeness auto
termination
  by (relation "measure (\<lambda>(count, s, i, dest). count - i)") auto

declare format_string_loop.simps [simp del]

definition format_string :: "backend \<Rightarrow> nat \<Rightarrow> string \<Rightarrow> string \<Rightarrow> string \<times> int" where
  "format_string vsnprintf count format_str s =
     (if char_at format_str 0 = CHR ''%'' \<and> char_at format_str 1 = CHR ''s''
      then format_string_loop count s 0 []
      else fmt_snprintf vsnprintf count format_str (VaStr s))"

section \<open>format_integer\<close>

text \<open>
  The template parameter \<^verbatim>\<open>TInt\<close> is a word type together with its signedness.
  Division of signed operands truncates towards zero; comparison with zero and the
  conversion of the remainder to an index read the word as two's complement.
\<close>

definition lut :: "bool \<Rightarrow> string" where
  "lut upcase =
     (if upcase then ''ZYXWVUTSRQPONMLKJIHGFEDCBA9876543210123456789ABCDEFGHIJKLMNOPQRSTUVWXYZ''
      else ''zyxwvutsrqponmlkjihgfedcba9876543210123456789abcdefghijklmnopqrstuvwxyz'')"

definition tint_val :: "bool \<Rightarrow> 'a::len word \<Rightarrow> int" where
  "tint_val is_signed w = (if is_signed then sint w else uint w)"

definition tint_div :: "bool \<Rightarrow> 'a::len word \<Rightarrow> 'a word \<Rightarrow> 'a word" where
  "tint_div is_signed a b =
     (if is_signed then word_of_int (sint a sdiv sint b) else a div b)"

text \<open>The \<^verbatim>\<open>do ... while (value)\<close> loop; \<open>buf\<close> is the scratch array filled so far,
  least significant digit first (20 elements in the source: enough for 64 bits in base 10
  with the sign). It yields the scratch array and the last \<^verbatim>\<open>tmp_value\<close>.\<close>

partial_function (option) format_integer_loop ::
  "bool \<Rightarrow> 'a::len word \<Rightarrow> bool \<Rightarrow> 'a word \<Rightarrow> string \<Rightarrow> (string \<times> 'a word) option" where
  "format_integer_loop is_signed base upcase val buf =
     (let tmp_value = val;
          val' = tint_div is_signed val base;
          buf' = buf @ [lut upcase ! nat (35 + tint_val is_signed (tmp_value - val' * base))]
      in if val' \<noteq> 0 then format_integer_loop is_signed base upcase val' buf'
         else Some (buf', tmp_value))"

declare format_integer_loop.simps [code]

text \<open>\<^verbatim>\<open>format_integer<TInt, tbase, upcase>\<close>: the bytes stored in the
  destination and the returned length. The \<^verbatim>\<open>static_assert\<close> rejects other
  bases at compile time.\<close>

definition format_integer ::
  "bool \<Rightarrow> nat \<Rightarrow> bool \<Rightarrow> 'a::len word \<Rightarrow> (string \<times> int) option" where
  "format_integer is_signed tbase upcase val =
     (if 10 \<le> tbase \<and> tbase \<le> 36 then
        Option.bind (format_integer_loop is_signed (of_nat tbase) upcase val [])
          (\<lambda>(buf, tmp_value).
             let buf' = (if tint_val is_signed tmp_value < 0 then buf @ ''-'' else buf)
             in Some (rev buf', int (length buf')))
      else None)"

section \<open>format_int32 and format_int64\<close>

text \<open>\<open>format_str\<close> is the scratch array \<^verbatim>\<open>argbuf\<close>; the argument \<open>v\<close> has been
  converted to \<^verbatim>\<open>int32_t\<close> (resp. \<^verbatim>\<open>int64_t\<close>) by the call, and to the
  unsigned type for the unsigned instances: the same word.\<close>

definition format_int32 :: "backend \<Rightarrow> nat \<Rightarrow> string \<Rightarrow> 32 word \<Rightarrow> (string \<times> int) option" where
  "format_int32 vsnprintf count format_str v =
     (let c = char_at format_str 1 in
      if (c = CHR ''d'' \<or> c = CHR ''i'') \<and> count \<ge> 11 then format_integer True 10 False v
      else if c = CHR ''u'' \<and> count \<ge> 11 then format_integer False 10 False v
      else if c = CHR ''x'' \<and> count \<ge> 8 then format_integer False 16 False v
      else if c = CHR ''X'' \<and> count \<ge> 8 then format_integer False 16 True v
      else Some (fmt_snprintf vsnprintf count format_str (VaInt32 v)))"

definition isPlain :: "platform \<Rightarrow> string \<Rightarrow> bool" where
  "isPlain pf format_str =
     (case pf of
        Win32 \<Rightarrow> char_at format_str 1 = char_at (i64Prefix pf) 0
                 \<and> char_at format_str 2 = char_at (i64Prefix pf) 1
                 \<and> char_at format_str 3 = char_at (i64Prefix pf) 2
      | Posix \<Rightarrow> char_at format_str 1 = char_at (i64Prefix pf) 0
                 \<and> char_at format_str 2 = char_at (i64Prefix pf) 1)"

definition format_int64 ::
  "platform \<Rightarrow> backend \<Rightarrow> nat \<Rightarrow> string \<Rightarrow> 64 word \<Rightarrow> (string \<times> int) option" where
  "format_int64 pf vsnprintf count format_str v =
     (let c = char_at format_str 4 in
      if isPlain pf format_str \<and> (c = CHR ''d'' \<or> c = CHR ''i'') \<and> count \<ge> 20
        then format_integer True 10 False v
      else if isPlain pf format_str \<and> c = CHR ''u'' \<and> count \<ge> 20
        then format_integer False 10 False v
      else if isPlain pf format_str \<and> c = CHR ''x'' \<and> count \<ge> 16
        then format_integer False 16 False v
      else if isPlain pf format_str \<and> c = CHR ''X'' \<and> count \<ge> 16
        then format_integer False 16 True v
      else Some (fmt_snprintf vsnprintf count format_str (VaInt64 v)))"

section \<open>fmt_settype and fmt_output_with_snprintf\<close>

text \<open>
  \<^verbatim>\<open>argbuf[pos] = c\<close>. The array has 16 elements; a store past its end lands in the
  memory that follows, which the model appends to the list.
\<close>

definition poke :: "string \<Rightarrow> nat \<Rightarrow> char \<Rightarrow> string" where
  "poke a pos c =
     (if pos < length a then a[pos := c] else a @ replicate (pos - length a) NUL @ [c])"

fun poke_str :: "string \<Rightarrow> nat \<Rightarrow> string \<Rightarrow> string" where
  "poke_str a pos [] = a"
| "poke_str a pos (c # cs) = poke_str (poke a pos c) (Suc pos) cs"

text \<open>\<open>width\<close> is \<open>None\<close> for \<^verbatim>\<open>nullptr\<close>. Yields the array after the stores.
  Every call has \<open>pos\<close> at least 1: the array starts with the \<open>%\<close> of the directive.\<close>

definition fmt_settype :: "string \<Rightarrow> nat \<Rightarrow> string option \<Rightarrow> char \<Rightarrow> string" where
  "fmt_settype argbuf pos width type =
     (case width of
        Some w \<Rightarrow>
          let pos1 = (if char_at argbuf (pos - 1) \<in> {CHR ''l'', CHR ''h'', CHR ''w''}
                      then pos - 1 else pos);
              a1 = poke_str argbuf pos1 (c_str w);
              pos2 = pos1 + length (c_str w);
              a2 = poke a1 pos2 type
          in poke a2 (pos2 + 1) NUL
      | None \<Rightarrow> poke (poke argbuf pos type) (pos + 1) NUL)"

definition tokenint :: "char \<Rightarrow> bool" where
  "tokenint fmt_type \<longleftrightarrow> fmt_type \<in> set ''dioxuX''"

definition tokenreal :: "char \<Rightarrow> bool" where
  "tokenreal fmt_type \<longleftrightarrow> fmt_type \<in> set ''eEfgGaA''"

text \<open>Yields the bytes stored in \<^verbatim>\<open>outbuf\<close>, the returned count, and the scratch
  array, which the call has changed.\<close>

definition fmt_output_with_snprintf ::
  "platform \<Rightarrow> backend \<Rightarrow> char \<Rightarrow> string \<Rightarrow> nat \<Rightarrow> nat \<Rightarrow> fmtarg
     \<Rightarrow> ((string \<times> int) \<times> string) option" where
  "fmt_output_with_snprintf pf vsnprintf fmt_type argbuf argbufsize outputSize arg =
     (case arg of
        TNull \<Rightarrow> Some (([], 0), argbuf)
      | TPtr p \<Rightarrow>
          let a = fmt_settype argbuf argbufsize None (CHR ''p'')
          in Some (fmt_snprintf vsnprintf outputSize a (VaPtr p), a)
      | TCStr s \<Rightarrow>
          let a = fmt_settype argbuf argbufsize (Some '''') (CHR ''s'')
          in Some (format_string vsnprintf outputSize a s, a)
      | TWStr ws \<Rightarrow>
          let a = fmt_settype argbuf argbufsize (Some (wcharPrefix pf)) (wcharType pf)
          in Some (fmt_snprintf vsnprintf outputSize a (VaWStr ws), a)
      | TI32 v \<Rightarrow>
          let a = (if fmt_type = CHR ''c'' then fmt_settype argbuf argbufsize (Some '''') (CHR ''c'')
                   else if tokenint fmt_type then fmt_settype argbuf argbufsize (Some '''') fmt_type
                   else fmt_settype argbuf argbufsize (Some '''') (CHR ''d''))
          in map_option (\<lambda>r. (r, a)) (format_int32 vsnprintf outputSize a v)
      | TU32 v \<Rightarrow>
          let a = (if tokenint fmt_type then fmt_settype argbuf argbufsize (Some '''') fmt_type
                   else fmt_settype argbuf argbufsize (Some '''') (CHR ''u''))
          in map_option (\<lambda>r. (r, a)) (format_int32 vsnprintf outputSize a v)
      | TI64 v \<Rightarrow>
          let a = (if tokenint fmt_type then fmt_settype argbuf argbufsize (Some (i64Prefix pf)) fmt_type
                   else fmt_settype argbuf argbufsize (Some (i64Prefix pf)) (CHR ''d''))
          in map_option (\<lambda>r. (r, a)) (format_int64 pf vsnprintf outputSize a v)
      | TU64 v \<Rightarrow>
          let a = (if tokenint fmt_type then fmt_settype argbuf argbufsize (Some (i64Prefix pf)) fmt_type
                   else fmt_settype argbuf argbufsize (Some (i64Prefix pf)) (CHR ''u''))
          in map_option (\<lambda>r. (r, a)) (format_int64 pf vsnprintf outputSize a v)
      | TDbl v \<Rightarrow>
          let a = (if tokenreal fmt_type then fmt_settype argbuf argbufsize None fmt_type
                   else fmt_settype argbuf argbufsize None (CHR ''g''))
          in Some (fmt_snprintf vsnprintf outputSize a (VaDouble v), a))"

section \<open>fmt_core\<close>

text \<open>
  A callback of \<^verbatim>\<open>context\<close>: given the size of the destination and the argument,
  the bytes it stored and the count it returned, already converted to
  \<^verbatim>\<open>ssize_t\<close>. \<open>None\<close> is \<^verbatim>\<open>nullptr\<close>.
\<close>

type_synonym WriteSpecialFunc = "nat \<Rightarrow> fmtarg \<Rightarrow> string \<times> int"

record fmt_context =
  Escape_Q :: "WriteSpecialFunc option"
  Escape_q :: "WriteSpecialFunc option"

text \<open>What \<^verbatim>\<open>fmt_core\<close> returns: the pointer and the length, and with them the
  bytes the call stored from that pointer on, through the terminator.\<close>

record StrLenPair =
  Str :: ptr
  Len :: nat
  Stored :: "cell list"

definition MaxOutputSize :: int where
  "MaxOutputSize = 1 * 1024 * 1024"

text \<open>The letters of the first \<^verbatim>\<open>case\<close> group of the \<^verbatim>\<open>switch\<close>.\<close>

definition conversion_letters :: string where
  "conversion_letters = ''aAcCdieEfgGHosSuxXpnvqQ''"

text \<open>\<^verbatim>\<open>args[iarg]\<close>; the pack built by \<^verbatim>\<open>fmt_buf\<close> ends with a spare
  \<^verbatim>\<open>TNull\<close> element.\<close>

definition arg_at :: "fmtarg list \<Rightarrow> int \<Rightarrow> fmtarg" where
  "arg_at args iarg = (if 0 \<le> iarg \<and> nat iarg < length args then args ! nat iarg else TNull)"

text \<open>The loop \<^verbatim>\<open>for (j = tokenstart; j <= i; j++) output.Add(fmt[j])\<close>.\<close>

function add_range :: "string \<Rightarrow> int \<Rightarrow> int \<Rightarrow> StackBuffer \<Rightarrow> StackBuffer" where
  "add_range fmt j i output =
     (if j \<le> i then add_range fmt (j + 1) i (Add (fmt_at fmt j) output) else output)"
  by pat_completeness auto
termination
  by (relation "measure (\<lambda>(fmt, j, i, output). nat (i + 1 - j))") auto

declare add_range.simps [simp del]

text \<open>The loop that prepares \<^verbatim>\<open>argbuf\<close>, skipping every \<^verbatim>\<open>*\<close>.\<close>

function build_argbuf :: "string \<Rightarrow> int \<Rightarrow> int \<Rightarrow> string \<Rightarrow> nat \<Rightarrow> string \<times> nat" where
  "build_argbuf fmt j i argbuf argbufsize =
     (if j < i then
        (if fmt_at fmt j = CHR ''*'' then build_argbuf fmt (j + 1) i argbuf argbufsize
         else build_argbuf fmt (j + 1) i (poke argbuf argbufsize (fmt_at fmt j)) (argbufsize + 1))
      else (argbuf, argbufsize))"
  by pat_completeness auto
termination
  by (relation "measure (\<lambda>(fmt, j, i, argbuf, argbufsize). nat (i - j))") auto

declare build_argbuf.simps [simp del]

text \<open>The \<^verbatim>\<open>while (true)\<close> loop that grows the region handed to the writer.
  The writer's bytes are stored from the start of the region; \<open>format_string\<close> and
  \<open>format_integer\<close> stay inside the size they are given, and so does a backend or a
  callback that respects it. A call through a null callback yields no result;
  \<open>loop_body\<close> excludes it.\<close>

partial_function (option) retry_loop ::
  "platform \<Rightarrow> backend \<Rightarrow> fmt_context \<Rightarrow> char \<Rightarrow> nat \<Rightarrow> fmtarg \<Rightarrow> int
     \<Rightarrow> StackBuffer \<Rightarrow> string \<Rightarrow> (StackBuffer \<times> string) option" where
  "retry_loop pf vsnprintf cx c argbufsize arg outputSize output argbuf =
     (let (outbuf, out1) = AddUninitialized (nat outputSize) output in
      Option.bind
        (if c = CHR ''q'' then map_option (\<lambda>f. (f (nat outputSize) arg, argbuf)) (Escape_q cx)
         else if c = CHR ''Q'' then map_option (\<lambda>f. (f (nat outputSize) arg, argbuf)) (Escape_Q cx)
         else fmt_output_with_snprintf pf vsnprintf c argbuf argbufsize (nat outputSize) arg)
        (\<lambda>((stored, written), argbuf').
           let out2 = out1\<lparr>Data := write_at (Data out1) outbuf stored\<rparr> in
           if written \<ge> 0 \<and> written < outputSize
           then Some (MoveCurrentPos (written - outputSize) out2, argbuf')
           else if outputSize \<ge> MaxOutputSize then Some (out2, argbuf')
           else retry_loop pf vsnprintf cx c argbufsize arg (outputSize * 2)
                  (MoveCurrentPos (- outputSize) out2) argbuf'))"

declare retry_loop.simps [code]

text \<open>The inner loop of the literal scan.\<close>

function copy_literal :: "string \<Rightarrow> int \<Rightarrow> int \<Rightarrow> StackBuffer \<Rightarrow> int \<times> StackBuffer" where
  "copy_literal fmt stopAt i output =
     (if i < stopAt \<and> fmt_at fmt i \<noteq> CHR ''%'' \<and> fmt_at fmt i \<noteq> NUL
      then copy_literal fmt stopAt (i + 1)
             (output\<lparr>Data := (Data output)[Pos output := Some (fmt_at fmt i)],
                     Pos := Pos output + 1\<rparr>)
      else (i, output))"
  by pat_completeness auto
termination
  by (relation "measure (\<lambda>(fmt, stopAt, i, output). nat (stopAt - i))") auto

declare copy_literal.simps [simp del]

text \<open>
  One pass through the body of the \<^verbatim>\<open>for\<close> loop, entered with \<^verbatim>\<open>fmt[i]\<close>
  non-zero. It yields whether the body left by \<^verbatim>\<open>break\<close>, and the variables
  \<^verbatim>\<open>i\<close>, \<^verbatim>\<open>tokenstart\<close>, \<^verbatim>\<open>iarg\<close>, \<^verbatim>\<open>output\<close> and
  \<^verbatim>\<open>argbuf\<close> as the body leaves them.
\<close>

definition loop_body ::
  "platform \<Rightarrow> backend \<Rightarrow> fmt_context \<Rightarrow> string \<Rightarrow> int \<Rightarrow> fmtarg list \<Rightarrow> nat
     \<Rightarrow> int \<Rightarrow> int \<Rightarrow> int \<Rightarrow> StackBuffer \<Rightarrow> string
     \<Rightarrow> (bool \<times> int \<times> int \<times> int \<times> StackBuffer \<times> string) option" where
  "loop_body pf vsnprintf cx fmt nargs args initial_sprintf_guessed_size
             i tokenstart iarg output argbuf =
     (if tokenstart \<noteq> - 1 then
        let c = fmt_at fmt i; is_q = (c = CHR ''q''); is_Q = (c = CHR ''Q'') in
        if c \<in> set conversion_letters then
          let no_args_remaining = (iarg \<ge> nargs);
              spec_too_long = (i - tokenstart \<ge> int argbuf_arraysize - 1);
              disallowed = (c = CHR ''n''
                            \<or> (is_q \<and> Escape_q cx = None)
                            \<or> (is_Q \<and> Escape_Q cx = None))
          in
          if no_args_remaining \<or> spec_too_long \<or> disallowed
          then Some (False, i, - 1, iarg, add_range fmt tokenstart i output, argbuf)
          else
            let (argbuf1, argbufsize) = build_argbuf fmt tokenstart i argbuf 0;
                arg = arg_at args iarg
            in Option.bind
                 (retry_loop pf vsnprintf cx c argbufsize arg
                    (int initial_sprintf_guessed_size) output argbuf1)
                 (\<lambda>(out', argbuf'). Some (False, i, - 1, iarg + 1, out', argbuf'))
        else if c = CHR ''%'' then Some (False, i, - 1, iarg, Add (CHR ''%'') output, argbuf)
        else Some (False, i, tokenstart, iarg, output, argbuf)
      else
        let stopAt = i + int (RemainingSpace output);
            (i1, out1) = copy_literal fmt stopAt i output
        in
        if fmt_at fmt i1 = CHR ''%'' then Some (False, i1, i1, iarg, out1, argbuf)
        else if fmt_at fmt i1 = NUL then Some (True, i1, tokenstart, iarg, out1, argbuf)
        else Some (False, i1 - 1, tokenstart, iarg, Reserve 1 out1, argbuf))"

text \<open>The \<^verbatim>\<open>for (ssize_t i = 0; fmt[i]; i++)\<close> loop, from the test of its
  condition on.\<close>

partial_function (option) fmt_loop ::
  "platform \<Rightarrow> backend \<Rightarrow> fmt_context \<Rightarrow> string \<Rightarrow> int \<Rightarrow> fmtarg list \<Rightarrow> nat
     \<Rightarrow> int \<Rightarrow> int \<Rightarrow> int \<Rightarrow> StackBuffer \<Rightarrow> string \<Rightarrow> StackBuffer option" where
  "fmt_loop pf vsnprintf cx fmt nargs args guess i tokenstart iarg output argbuf =
     (if fmt_at fmt i = NUL then Some output
      else
        Option.bind (loop_body pf vsnprintf cx fmt nargs args guess i tokenstart iarg output argbuf)
          (\<lambda>(brk, i', tokenstart', iarg', output', argbuf').
             if brk then Some output'
             else fmt_loop pf vsnprintf cx fmt nargs args guess (i' + 1) tokenstart' iarg'
                    output' argbuf'))"

declare fmt_loop.simps [code]

text \<open>The first \<open>n\<close> bytes of a zero-terminated string as they lie in memory.\<close>

definition c_bytes :: "string \<Rightarrow> nat \<Rightarrow> cell list" where
  "c_bytes s n = map (\<lambda>k. Some (char_at s k)) [0..<n]"

text \<open>
  \<^verbatim>\<open>fmt_core\<close> with a caller buffer of \<open>staticbuf_size\<close> bytes. \<open>None\<close> means that
  the call does not return. In the zero-argument path \<^verbatim>\<open>memcpy\<close> stores
  \<open>len + 1\<close> bytes from the pointer on, whatever the size of the block there.
\<close>

definition fmt_core ::
  "platform \<Rightarrow> backend \<Rightarrow> fmt_context \<Rightarrow> string \<Rightarrow> int \<Rightarrow> fmtarg list \<Rightarrow> nat
     \<Rightarrow> StrLenPair option" where
  "fmt_core pf vsnprintf cx fmt nargs args staticbuf_size =
     (if nargs = 0 then
        let len = strlen fmt in
        if staticbuf_size \<noteq> 0 \<and> len \<le> staticbuf_size + 1
        then Some \<lparr>Str = StaticBuf, Len = len,
                    Stored = take (len + 1)
                               (memcpy (replicate staticbuf_size None) (c_bytes fmt (len + 1)) (len + 1))\<rparr>
        else Some \<lparr>Str = HeapBlock 0, Len = len,
                    Stored = take (len + 1)
                               (memcpy (replicate (len + 1) None) (c_bytes fmt (len + 1)) (len + 1))\<rparr>
      else
        let initial_sprintf_guessed_size = staticbuf_size div 4;
            output = StackBuffer_new staticbuf_size;
            argbuf = replicate argbuf_arraysize NUL
        in Option.bind
             (fmt_loop pf vsnprintf cx fmt nargs args initial_sprintf_guessed_size
                0 (- 1) 0 output argbuf)
             (\<lambda>out. let out' = Add NUL out
                     in Some \<lparr>Str = Buffer out', Len = Pos out' - 1,
                              Stored = take (Pos out') (Data out')\<rparr>))"

text \<open>\<^verbatim>\<open>fmt_buf\<close>: the pack holds the arguments and a spare element, and the count
  is the number of arguments.\<close>

definition fmt_buf ::
  "platform \<Rightarrow> backend \<Rightarrow> fmt_context \<Rightarrow> nat \<Rightarrow> string \<Rightarrow> fmtarg list \<Rightarrow> StrLenPair option" where
  "fmt_buf pf vsnprintf cx buf_len fs args =
     fmt_core pf vsnprintf cx fs (int (length args)) (args @ [TNull]) buf_len"

text \<open>The text a result denotes: the first \<open>Len\<close> bytes at \<open>Str\<close>.\<close>

definition result_text :: "StrLenPair \<Rightarrow> cell list" where
  "result_text r = take (Len r) (Stored r)"

text \<open>Two concrete parameters for evaluating the model: a C library whose
  \<^verbatim>\<open>vsnprintf\<close> fails on every call, and the default-constructed
  \<^verbatim>\<open>context\<close> of \<^verbatim>\<open>fmt_buf\<close>.\<close>

definition vsnprintf_fails :: backend where
  "vsnprintf_fails count spec va = ([], - 1)"

definition default_context :: fmt_context where
  "default_context = \<lparr>Escape_Q = None, Escape_q = None\<rparr>"

section \<open>Notions used to state the properties\<close>

text \<open>The bytes appended to a buffer so far.\<close>

definition appended :: "StackBuffer \<Rightarrow> cell list" where
  "appended b = take (Pos b) (Data b)"





text \<open>A result fits a capacity when its bytes and the terminator do.\<close>

definition result_fits :: "StrLenPair \<Rightarrow> nat \<Rightarrow> bool" where
  "result_fits r capacity \<longleftrightarrow> Len r + 1 \<le> capacity"

text \<open>A buffer that still points to the caller's block has the caller's capacity.\<close>

definition still_static :: "nat \<Rightarrow> StackBuffer \<Rightarrow> bool" where
  "still_static staticbuf_size b \<longleftrightarrow> (Buffer b = StaticBuf \<longrightarrow> Capacity b = staticbuf_size)"

section \<open>The backend's integer conversions\<close>

text \<open>
  What the C library's \<^verbatim>\<open>printf\<close> family prints for an integer with a plain
  conversion: \<^verbatim>\<open>%u\<close>, \<^verbatim>\<open>%x\<close> and \<^verbatim>\<open>%X\<close> print the value in
  positional notation, most significant digit first, with the letters \<open>abcdef\<close> resp.
  \<open>ABCDEF\<close>; \<^verbatim>\<open>%d\<close> prints a minus sign and the magnitude if the value is negative.
  These are written from the C standard, not from the program.
\<close>

definition digit_char :: "bool \<Rightarrow> nat \<Rightarrow> char" where
  "digit_char upcase d =
     (if upcase then ''0123456789ABCDEFGHIJKLMNOPQRSTUVWXYZ''
      else ''0123456789abcdefghijklmnopqrstuvwxyz'') ! d"

function positional :: "nat \<Rightarrow> bool \<Rightarrow> nat \<Rightarrow> string" where
  "positional b upcase n =
     (if n < b \<or> b < 2 then [digit_char upcase n]
      else positional b upcase (n div b) @ [digit_char upcase (n mod b)])"
  by pat_completeness auto
termination
  by (relation "measure (\<lambda>(b, upcase, n). n)") auto

declare positional.simps [simp del]

definition printf_d :: "int \<Rightarrow> string" where
  "printf_d k = (if k < 0 then ''-'' @ positional 10 False (nat (- k)) else positional 10 False (nat k))"

definition printf_u :: "nat \<Rightarrow> string" where
  "printf_u n = positional 10 False n"

definition printf_x :: "nat \<Rightarrow> string" where
  "printf_x n = positional 16 False n"

definition printf_X :: "nat \<Rightarrow> string" where
  "printf_X n = positional 16 True n"

section \<open>Properties of StackBuffer\<close>

lemma Reserve_Pos [simp]: "Pos (Reserve n b) = Pos b"
  by (simp add: Reserve_def Let_def)

lemma Reserve_room: "Pos b + n \<le> Capacity (Reserve n b)"
  by (simp add: Reserve_def Let_def)

lemma Reserve_ok: "buffer_ok b \<Longrightarrow> buffer_ok (Reserve n b)"
  by (auto simp: buffer_ok_def Reserve_def Let_def memcpy_def)

text \<open>
  C7. When \<open>Pos + requested > Capacity\<close>, \<open>Reserve\<close> sets the capacity to
  \<open>max (Capacity * 2) (Pos + requested)\<close>, moves to a new block whose first \<open>Pos\<close> bytes
  are the first \<open>Pos\<close> bytes of the old one, gives the old block to \<^verbatim>\<open>delete[]\<close>
  exactly when it was heap-owned, and sets the ownership flag; the cursor stays. When
  \<open>Pos + requested \<le> Capacity\<close> nothing changes.
\<close>

theorem Reserve_growth_policy:
  assumes "buffer_ok b"
  shows "(Pos b + requested > Capacity b \<longrightarrow>
            Capacity (Reserve requested b) = max (Capacity b * 2) (Pos b + requested)
          \<and> length (Data (Reserve requested b)) = Capacity (Reserve requested b)
          \<and> take (Pos b) (Data (Reserve requested b)) = take (Pos b) (Data b)
          \<and> Buffer (Reserve requested b) = HeapBlock (Allocs b)
          \<and> Allocs (Reserve requested b) = Suc (Allocs b)
          \<and> Freed (Reserve requested b) = (if OwnBuffer b then Buffer b # Freed b else Freed b)
          \<and> OwnBuffer (Reserve requested b)
          \<and> Pos (Reserve requested b) = Pos b)
       \<and> (Pos b + requested \<le> Capacity b \<longrightarrow> Reserve requested b = b)"
  using assms by (auto simp: buffer_ok_def Reserve_def Let_def memcpy_def max_def)

theorem Reserve_growth_policy_witness:
  "buffer_ok (StackBuffer_new 4)
   \<and> Capacity (Reserve 9 (StackBuffer_new 4)) = 9
   \<and> Capacity (Reserve 3 (Add CHR ''a'' (Add CHR ''b'' (StackBuffer_new 4)))) = 8
   \<and> Buffer (Reserve 3 (Add CHR ''a'' (Add CHR ''b'' (StackBuffer_new 4)))) = HeapBlock 0
   \<and> take 2 (Data (Reserve 3 (Add CHR ''a'' (Add CHR ''b'' (StackBuffer_new 4)))))
       = [Some CHR ''b'', Some CHR ''a'']
   \<and> Freed (Reserve 9 (StackBuffer_new 4)) = []
   \<and> Freed (Reserve 30 (Reserve 9 (StackBuffer_new 4))) = [HeapBlock 0]
   \<and> Reserve 4 (StackBuffer_new 4) = StackBuffer_new 4"
proof -
  have ok: "buffer_ok (StackBuffer_new 4)"
    by code_simp
  have vals: "take 2 (Data (Reserve 3 (Add CHR ''a'' (Add CHR ''b'' (StackBuffer_new 4)))))
                = [Some CHR ''b'', Some CHR ''a'']
              \<and> Capacity (Reserve 3 (Add CHR ''a'' (Add CHR ''b'' (StackBuffer_new 4)))) = 8
              \<and> Buffer (Reserve 3 (Add CHR ''a'' (Add CHR ''b'' (StackBuffer_new 4)))) = HeapBlock 0
              \<and> Freed (Reserve 30 (Reserve 9 (StackBuffer_new 4))) = [HeapBlock 0]"
    by code_simp
  show ?thesis
    using ok vals Reserve_growth_policy [OF ok, of 9] Reserve_growth_policy [OF ok, of 4]
    by (simp add: StackBuffer_new_def)
qed

section \<open>The fast integer path and the backend\<close>

lemma lut_nonneg: "d < 36 \<Longrightarrow> lut upcase ! (35 + d) = digit_char upcase d"
proof -
  assume "d < 36"
  then have "d \<in> set [0..<36]" by simp
  then show ?thesis
    unfolding lut_def digit_char_def
    by (auto simp: upt_rec numeral_eq_Suc)
qed

lemma lut_nonpos: "d < 36 \<Longrightarrow> lut upcase ! (35 - d) = digit_char upcase d"
proof -
  assume "d < 36"
  then have "d \<in> set [0..<36]" by simp
  then show ?thesis
    unfolding lut_def digit_char_def
    by (auto simp: upt_rec numeral_eq_Suc)
qed

lemma format_integer_loop_unsigned:
  fixes v b :: "'a::len word"
  assumes b: "2 \<le> unat b" "unat b \<le> 36"
  shows "\<exists>t. format_integer_loop False b upcase v buf
            = Some (buf @ rev (positional (unat b) upcase (unat v)), t)"
proof (induction "unat v" arbitrary: v buf rule: less_induct)
  case less
  have "v - v div b * b = v mod b"
    by (rule minus_div_mult_eq_mod)
  moreover have "nat (35 + uint (v mod b)) = 35 + unat (v mod b)"
    by (simp add: nat_add_distrib)
  ultimately have idx: "nat (35 + tint_val False (v - tint_div False v b * b)) = 35 + unat v mod unat b"
    by (simp only: tint_val_def tint_div_def if_False unat_mod)
  have lt: "unat v mod unat b < 36"
  proof -
    have "unat v mod unat b < unat b" using b by simp
    then show ?thesis using b by linarith
  qed
  show ?case
  proof (cases "v div b = 0")
    case True
    then have small: "unat v < unat b"
      using b by (metis div_eq_0_iff not_numeral_le_zero unat_div unat_0)
    then show ?thesis
      using b True idx lt
      by (subst format_integer_loop.simps)
         (simp add: Let_def tint_div_def positional.simps [of "unat b" upcase "unat v"] lut_nonneg)
  next
    case False
    then have big: "\<not> unat v < unat b"
      by (metis div_word_less word_less_nat_alt)
    have dec: "unat (v div b) < unat v"
      using b big by (simp add: unat_div)
    from less [OF dec] obtain t where
      "format_integer_loop False b upcase (v div b)
         (buf @ [lut upcase ! nat (35 + tint_val False (v - v div b * b))])
       = Some ((buf @ [lut upcase ! nat (35 + tint_val False (v - v div b * b))])
                 @ rev (positional (unat b) upcase (unat (v div b))), t)"
      by blast
    then show ?thesis
      using b False big idx lt
      by (subst format_integer_loop.simps)
         (simp add: Let_def tint_div_def positional.simps [of "unat b" upcase "unat v"]
            lut_nonneg unat_div)
  qed
qed

lemma sdiv_by_pos: "0 < s \<Longrightarrow> (a::int) sdiv s = sgn a * (\<bar>a\<bar> div s)"
  by (simp add: signed_divide_int_def sgn_if)

lemma srem_by_pos: "0 < s \<Longrightarrow> (a::int) - (a sdiv s) * s = sgn a * (\<bar>a\<bar> mod s)"
proof -
  assume "0 < s"
  have "a = sgn a * \<bar>a\<bar>" by (simp add: sgn_if)
  also have "\<bar>a\<bar> = (\<bar>a\<bar> div s) * s + \<bar>a\<bar> mod s" by simp
  finally have "a = sgn a * ((\<bar>a\<bar> div s) * s) + sgn a * (\<bar>a\<bar> mod s)"
    by (simp only: distrib_left)
  then show ?thesis
    using \<open>0 < s\<close> by (simp add: sdiv_by_pos algebra_simps)
qed

lemma sint_in_range:
  fixes v :: "'a::len word"
  assumes "\<bar>k\<bar> \<le> \<bar>sint v\<bar>" "\<bar>k\<bar> < \<bar>sint v\<bar> \<or> k = sint v"
  shows "sint (word_of_int k :: 'a word) = k"
proof -
  have "- (2 ^ (LENGTH('a) - 1)) \<le> sint v" "sint v < 2 ^ (LENGTH('a) - 1)"
    by (rule sint_ge, rule sint_lt)
  with assms have "- (2 ^ (LENGTH('a) - 1)) \<le> k \<and> k < 2 ^ (LENGTH('a) - 1)"
    by auto
  then show ?thesis
    by (simp add: sint_sbintrunc' signed_take_bit_int_eq_self)
qed

lemma sint_tint_div:
  fixes v b :: "'a::len word"
  assumes "2 \<le> sint b"
  shows "sint (tint_div True v b) = sgn (sint v) * (\<bar>sint v\<bar> div sint b)"
proof -
  let ?q = "sgn (sint v) * (\<bar>sint v\<bar> div sint b)"
  have lt: "sint v \<noteq> 0 \<Longrightarrow> \<bar>sint v\<bar> div sint b < \<bar>sint v\<bar>"
    using assms by (simp add: int_div_less_self)
  then have "\<bar>sint v\<bar> div sint b \<le> \<bar>sint v\<bar>"
    by (cases "sint v = 0") auto
  moreover have "0 \<le> \<bar>sint v\<bar> div sint b"
    using assms by (simp add: pos_imp_zdiv_nonneg_iff)
  ultimately have "\<bar>?q\<bar> \<le> \<bar>sint v\<bar>" "\<bar>?q\<bar> < \<bar>sint v\<bar> \<or> ?q = sint v"
    using lt by (auto simp: abs_mult sgn_if)
  then have "sint (word_of_int ?q :: 'a word) = ?q"
    by (rule sint_in_range)
  then show ?thesis
    using assms by (simp add: tint_div_def sdiv_by_pos)
qed

lemma sint_remainder:
  fixes v b :: "'a::len word"
  assumes "2 \<le> sint b"
  shows "sint (v - tint_div True v b * b) = sgn (sint v) * (\<bar>sint v\<bar> mod sint b)"
proof -
  let ?r = "sgn (sint v) * (\<bar>sint v\<bar> mod sint b)"
  have w: "v - tint_div True v b * b = word_of_int (sint v - (sint v sdiv sint b) * sint b)"
    by (simp add: tint_div_def)
  have r: "sint v - (sint v sdiv sint b) * sint b = ?r"
    using assms by (simp add: srem_by_pos)
  have "\<bar>sint v\<bar> mod sint b < sint b" "0 \<le> \<bar>sint v\<bar> mod sint b"
    using assms by simp_all
  then have "\<bar>?r\<bar> \<le> \<bar>sint b\<bar>" "\<bar>?r\<bar> < \<bar>sint b\<bar> \<or> ?r = sint b"
    by (auto simp: abs_mult sgn_if)
  then have "sint (word_of_int ?r :: 'a word) = ?r"
    by (rule sint_in_range)
  then show ?thesis
    by (simp only: w r)
qed

lemma format_integer_loop_signed:
  fixes v b :: "'a::len word"
  assumes b: "2 \<le> sint b" "sint b \<le> 36"
  shows "\<exists>t. format_integer_loop True b upcase v buf
              = Some (buf @ rev (positional (nat (sint b)) upcase (nat \<bar>sint v\<bar>)), t)
            \<and> (sint t < 0 \<longleftrightarrow> sint v < 0)"
proof (induction "nat \<bar>sint v\<bar>" arbitrary: v buf rule: less_induct)
  case less
  let ?m = "\<bar>sint v\<bar>" and ?s = "sint b" and ?q = "tint_div True v b"
  have q: "sint ?q = sgn (sint v) * (?m div ?s)"
    using b by (simp add: sint_tint_div)
  have r: "sint (v - ?q * b) = sgn (sint v) * (?m mod ?s)"
    using b by (simp add: sint_remainder)
  have md: "0 \<le> ?m mod ?s" "?m mod ?s < 36"
    using b by (simp, smt (verit) pos_mod_bound)
  have idx: "lut upcase ! nat (35 + tint_val True (v - ?q * b)) = digit_char upcase (nat (?m mod ?s))"
  proof (cases "sint v < 0")
    case True
    then have "nat (35 + sint (v - ?q * b)) = 35 - nat (?m mod ?s)"
      using md by (simp add: r nat_diff_distrib')
    then show ?thesis
      using md by (simp add: tint_val_def lut_nonpos)
  next
    case False
    then have "sint (v - ?q * b) = ?m mod ?s"
      using b by (cases "sint v = 0") (simp_all add: r)
    then have "nat (35 + sint (v - ?q * b)) = 35 + nat (?m mod ?s)"
      using md by (simp add: nat_add_distrib)
    then show ?thesis
      using md by (simp add: tint_val_def lut_nonneg)
  qed
  have dv: "0 \<le> ?m div ?s"
    using b by (simp add: pos_imp_zdiv_nonneg_iff)
  have q0: "?q = 0 \<longleftrightarrow> ?m < ?s"
  proof -
    have "?q = 0 \<longleftrightarrow> sint ?q = 0"
      by (simp add: signed_eq_0_iff)
    also have "\<dots> \<longleftrightarrow> ?m div ?s = 0"
      by (auto simp: q sgn_if)
    also have "\<dots> \<longleftrightarrow> ?m < ?s"
      using b by (auto simp: zdiv_eq_0_iff)
    finally show ?thesis .
  qed
  have unf: "positional (nat ?s) upcase (nat ?m) =
      (if ?m < ?s then [digit_char upcase (nat ?m)]
       else positional (nat ?s) upcase (nat (?m div ?s)) @ [digit_char upcase (nat (?m mod ?s))])"
  proof -
    have "\<not> nat ?s < 2" using b by linarith
    moreover have "nat ?m < nat ?s \<longleftrightarrow> ?m < ?s" using b by linarith
    ultimately show ?thesis
      using b by (subst positional.simps) (simp add: nat_div_distrib nat_mod_distrib)
  qed
  show ?case
  proof (cases "?q = 0")
    case True
    with q0 have small: "?m < ?s" by simp
    then have "?m mod ?s = ?m" by simp
    with True small idx unf show ?thesis
      by (subst format_integer_loop.simps) (simp add: Let_def)
  next
    case False
    with q0 have big: "\<not> ?m < ?s" by simp
    then have pos: "0 < ?m div ?s"
      using b by (simp add: pos_imp_zdiv_pos_iff)
    have nz: "sint v \<noteq> 0" using big b by auto
    have absq: "\<bar>sint ?q\<bar> = ?m div ?s"
      using nz dv by (simp add: q abs_mult sgn_if)
    have "?m div ?s < ?m"
      using b nz by (simp add: int_div_less_self)
    then have dec: "nat \<bar>sint ?q\<bar> < nat \<bar>sint v\<bar>"
      using absq by simp
    have sgnq: "sint ?q < 0 \<longleftrightarrow> sint v < 0"
      using pos by (auto simp: q sgn_if mult_less_0_iff)
    from less [OF dec, of "buf @ [lut upcase ! nat (35 + tint_val True (v - ?q * b))]"]
    obtain t where
      "format_integer_loop True b upcase ?q
         (buf @ [lut upcase ! nat (35 + tint_val True (v - ?q * b))])
       = Some ((buf @ [lut upcase ! nat (35 + tint_val True (v - ?q * b))])
                 @ rev (positional (nat ?s) upcase (nat \<bar>sint ?q\<bar>)), t)"
      "sint t < 0 \<longleftrightarrow> sint ?q < 0"
      by blast
    with False big idx unf absq sgnq show ?thesis
      by (subst format_integer_loop.simps) (simp add: Let_def)
  qed
qed

lemma format_integer_unsigned:
  fixes v :: "'a::len word"
  assumes "10 \<le> tbase" "tbase \<le> 36" "tbase < 2 ^ LENGTH('a)"
  shows "format_integer False tbase upcase v
           = Some (positional tbase upcase (unat v),
                   int (length (positional tbase upcase (unat v))))"
proof -
  have ub: "unat (of_nat tbase :: 'a word) = tbase"
    using assms by (simp add: unat_of_nat)
  obtain t where
    "format_integer_loop False (of_nat tbase :: 'a word) upcase v []
       = Some ([] @ rev (positional (unat (of_nat tbase :: 'a word)) upcase (unat v)), t)"
    using format_integer_loop_unsigned [of "of_nat tbase :: 'a word" upcase v "[]"] assms ub
    by auto
  then show ?thesis
    using assms by (simp add: format_integer_def ub tint_val_def)
qed

lemma format_integer_signed:
  fixes v :: "'a::len word"
  assumes "10 \<le> tbase" "tbase \<le> 36" "tbase < 2 ^ (LENGTH('a) - 1)"
  shows "format_integer True tbase upcase v
           = Some ((if sint v < 0 then ''-'' else []) @ positional tbase upcase (nat \<bar>sint v\<bar>),
                   int (length ((if sint v < 0 then ''-'' else [])
                                  @ positional tbase upcase (nat \<bar>sint v\<bar>))))"
proof -
  have "int tbase < 2 ^ (LENGTH('a) - 1)"
    using assms(3) by (metis of_nat_less_iff of_nat_numeral of_nat_power)
  then have "signed_take_bit (LENGTH('a) - 1) (int tbase) = int tbase"
    by (intro signed_take_bit_int_eq_self) (auto intro: order_trans [of _ 0])
  moreover have "sint (of_nat tbase :: 'a word) = sint (word_of_int (int tbase) :: 'a word)"
    by simp
  ultimately have sb: "sint (of_nat tbase :: 'a word) = int tbase"
    by (simp only: sint_sbintrunc')
  obtain t where
    "format_integer_loop True (of_nat tbase :: 'a word) upcase v []
       = Some ([] @ rev (positional (nat (sint (of_nat tbase :: 'a word))) upcase (nat \<bar>sint v\<bar>)), t)"
    "sint t < 0 \<longleftrightarrow> sint v < 0"
    using format_integer_loop_signed [of "of_nat tbase :: 'a word" upcase v "[]"] assms sb
    by auto
  then show ?thesis
    using assms by (simp add: format_integer_def sb tint_val_def)
qed

text \<open>
  C1. For every 32-bit and every 64-bit value, minimum signed values included,
  \<open>format_integer\<close> stores the digits that the backend's \<^verbatim>\<open>%d\<close>,
  \<^verbatim>\<open>%u\<close>, \<^verbatim>\<open>%x\<close> and \<^verbatim>\<open>%X\<close> conversions print for the same
  value, and returns their number; \<open>format_int32\<close> and \<open>format_int64\<close> return exactly
  that whenever they take the fast path.
\<close>

theorem fast_integer_path_equals_backend:
  fixes v32 :: "32 word" and v64 :: "64 word"
  shows
   "format_integer True 10 False v32 = Some (printf_d (sint v32), int (length (printf_d (sint v32))))
  \<and> format_integer False 10 False v32 = Some (printf_u (unat v32), int (length (printf_u (unat v32))))
  \<and> format_integer False 16 False v32 = Some (printf_x (unat v32), int (length (printf_x (unat v32))))
  \<and> format_integer False 16 True v32 = Some (printf_X (unat v32), int (length (printf_X (unat v32))))
  \<and> format_integer True 10 False v64 = Some (printf_d (sint v64), int (length (printf_d (sint v64))))
  \<and> format_integer False 10 False v64 = Some (printf_u (unat v64), int (length (printf_u (unat v64))))
  \<and> format_integer False 16 False v64 = Some (printf_x (unat v64), int (length (printf_x (unat v64))))
  \<and> format_integer False 16 True v64 = Some (printf_X (unat v64), int (length (printf_X (unat v64))))
  \<and> (11 \<le> count \<and> (char_at format_str 1 = CHR ''d'' \<or> char_at format_str 1 = CHR ''i'') \<longrightarrow>
       format_int32 vsnprintf count format_str v32
         = Some (printf_d (sint v32), int (length (printf_d (sint v32)))))
  \<and> (11 \<le> count \<and> char_at format_str 1 = CHR ''u'' \<longrightarrow>
       format_int32 vsnprintf count format_str v32
         = Some (printf_u (unat v32), int (length (printf_u (unat v32)))))
  \<and> (8 \<le> count \<and> char_at format_str 1 = CHR ''x'' \<longrightarrow>
       format_int32 vsnprintf count format_str v32
         = Some (printf_x (unat v32), int (length (printf_x (unat v32)))))
  \<and> (8 \<le> count \<and> char_at format_str 1 = CHR ''X'' \<longrightarrow>
       format_int32 vsnprintf count format_str v32
         = Some (printf_X (unat v32), int (length (printf_X (unat v32)))))
  \<and> (20 \<le> count \<and> isPlain pf format_str
        \<and> (char_at format_str 4 = CHR ''d'' \<or> char_at format_str 4 = CHR ''i'') \<longrightarrow>
       format_int64 pf vsnprintf count format_str v64
         = Some (printf_d (sint v64), int (length (printf_d (sint v64)))))
  \<and> (20 \<le> count \<and> isPlain pf format_str \<and> char_at format_str 4 = CHR ''u'' \<longrightarrow>
       format_int64 pf vsnprintf count format_str v64
         = Some (printf_u (unat v64), int (length (printf_u (unat v64)))))
  \<and> (16 \<le> count \<and> isPlain pf format_str \<and> char_at format_str 4 = CHR ''x'' \<longrightarrow>
       format_int64 pf vsnprintf count format_str v64
         = Some (printf_x (unat v64), int (length (printf_x (unat v64)))))
  \<and> (16 \<le> count \<and> isPlain pf format_str \<and> char_at format_str 4 = CHR ''X'' \<longrightarrow>
       format_int64 pf vsnprintf count format_str v64
         = Some (printf_X (unat v64), int (length (printf_X (unat v64)))))"
proof -
  have d32: "format_integer True 10 False v32
               = Some (printf_d (sint v32), int (length (printf_d (sint v32))))"
    by (simp add: format_integer_signed [where tbase = 10] printf_d_def)
  have u32: "format_integer False 10 False v32
               = Some (printf_u (unat v32), int (length (printf_u (unat v32))))"
    by (simp add: format_integer_unsigned [where tbase = 10] printf_u_def)
  have x32: "format_integer False 16 False v32
               = Some (printf_x (unat v32), int (length (printf_x (unat v32))))"
    by (simp add: format_integer_unsigned [where tbase = 16] printf_x_def)
  have X32: "format_integer False 16 True v32
               = Some (printf_X (unat v32), int (length (printf_X (unat v32))))"
    by (simp add: format_integer_unsigned [where tbase = 16] printf_X_def)
  have d64: "format_integer True 10 False v64
               = Some (printf_d (sint v64), int (length (printf_d (sint v64))))"
    by (simp add: format_integer_signed [where tbase = 10] printf_d_def)
  have u64: "format_integer False 10 False v64
               = Some (printf_u (unat v64), int (length (printf_u (unat v64))))"
    by (simp add: format_integer_unsigned [where tbase = 10] printf_u_def)
  have x64: "format_integer False 16 False v64
               = Some (printf_x (unat v64), int (length (printf_x (unat v64))))"
    by (simp add: format_integer_unsigned [where tbase = 16] printf_x_def)
  have X64: "format_integer False 16 True v64
               = Some (printf_X (unat v64), int (length (printf_X (unat v64))))"
    by (simp add: format_integer_unsigned [where tbase = 16] printf_X_def)
  have i32: "format_int32 vsnprintf count format_str v32 =
      (if (char_at format_str 1 = CHR ''d'' \<or> char_at format_str 1 = CHR ''i'') \<and> 11 \<le> count
         then format_integer True 10 False v32
       else if char_at format_str 1 = CHR ''u'' \<and> 11 \<le> count then format_integer False 10 False v32
       else if char_at format_str 1 = CHR ''x'' \<and> 8 \<le> count then format_integer False 16 False v32
       else if char_at format_str 1 = CHR ''X'' \<and> 8 \<le> count then format_integer False 16 True v32
       else Some (fmt_snprintf vsnprintf count format_str (VaInt32 v32)))"
    by (simp only: format_int32_def Let_def)
  have i64: "format_int64 pf vsnprintf count format_str v64 =
      (if isPlain pf format_str
            \<and> (char_at format_str 4 = CHR ''d'' \<or> char_at format_str 4 = CHR ''i'') \<and> 20 \<le> count
         then format_integer True 10 False v64
       else if isPlain pf format_str \<and> char_at format_str 4 = CHR ''u'' \<and> 20 \<le> count
         then format_integer False 10 False v64
       else if isPlain pf format_str \<and> char_at format_str 4 = CHR ''x'' \<and> 16 \<le> count
         then format_integer False 16 False v64
       else if isPlain pf format_str \<and> char_at format_str 4 = CHR ''X'' \<and> 16 \<le> count
         then format_integer False 16 True v64
       else Some (fmt_snprintf vsnprintf count format_str (VaInt64 v64)))"
    by (simp only: format_int64_def Let_def)
  have c1: "11 \<le> count \<and> (char_at format_str 1 = CHR ''d'' \<or> char_at format_str 1 = CHR ''i'') \<longrightarrow>
       format_int32 vsnprintf count format_str v32
         = Some (printf_d (sint v32), int (length (printf_d (sint v32))))"
    by (simp only: i32 d32) simp
  have c2: "11 \<le> count \<and> char_at format_str 1 = CHR ''u'' \<longrightarrow>
       format_int32 vsnprintf count format_str v32
         = Some (printf_u (unat v32), int (length (printf_u (unat v32))))"
    by (simp only: i32 u32) simp
  have c3: "8 \<le> count \<and> char_at format_str 1 = CHR ''x'' \<longrightarrow>
       format_int32 vsnprintf count format_str v32
         = Some (printf_x (unat v32), int (length (printf_x (unat v32))))"
    by (simp only: i32 x32) simp
  have c4: "8 \<le> count \<and> char_at format_str 1 = CHR ''X'' \<longrightarrow>
       format_int32 vsnprintf count format_str v32
         = Some (printf_X (unat v32), int (length (printf_X (unat v32))))"
    by (simp only: i32 X32) simp
  have c5: "20 \<le> count \<and> isPlain pf format_str
        \<and> (char_at format_str 4 = CHR ''d'' \<or> char_at format_str 4 = CHR ''i'') \<longrightarrow>
       format_int64 pf vsnprintf count format_str v64
         = Some (printf_d (sint v64), int (length (printf_d (sint v64))))"
    by (simp only: i64 d64) simp
  have c6: "20 \<le> count \<and> isPlain pf format_str \<and> char_at format_str 4 = CHR ''u'' \<longrightarrow>
       format_int64 pf vsnprintf count format_str v64
         = Some (printf_u (unat v64), int (length (printf_u (unat v64))))"
    by (simp only: i64 u64) simp
  have c7: "16 \<le> count \<and> isPlain pf format_str \<and> char_at format_str 4 = CHR ''x'' \<longrightarrow>
       format_int64 pf vsnprintf count format_str v64
         = Some (printf_x (unat v64), int (length (printf_x (unat v64))))"
    by (simp only: i64 x64) simp
  have c8: "16 \<le> count \<and> isPlain pf format_str \<and> char_at format_str 4 = CHR ''X'' \<longrightarrow>
       format_int64 pf vsnprintf count format_str v64
         = Some (printf_X (unat v64), int (length (printf_X (unat v64))))"
    by (simp only: i64 X64) simp
  show ?thesis
    by (intro conjI d32 u32 x32 X32 d64 u64 x64 X64 c1 c2 c3 c4 c5 c6 c7 c8)
qed

theorem fast_integer_path_equals_backend_witness:
  "(11::nat) \<le> 11 \<and> char_at ''%d'' 1 = CHR ''d''
   \<and> format_int32 vsnprintf_fails 11 ''%d'' (- 2147483648) = Some (''-2147483648'', 11)
   \<and> (16::nat) \<le> 16 \<and> isPlain Win32 ''%I64X'' \<and> char_at ''%I64X'' 4 = CHR ''X''
   \<and> format_int64 Win32 vsnprintf_fails 16 ''%I64X'' 18446744073709551615
        = Some (''FFFFFFFFFFFFFFFF'', 16)"
proof -
  have a: "printf_d (sint (- 2147483648 :: 32 word)) = ''-2147483648''"
    by (simp add: printf_d_def positional.simps digit_char_def)
  have b: "printf_X (unat (18446744073709551615 :: 64 word)) = ''FFFFFFFFFFFFFFFF''"
    by (simp add: printf_X_def positional.simps digit_char_def)
  have c: "char_at ''%d'' 1 = CHR ''d''" "isPlain Win32 ''%I64X''" "char_at ''%I64X'' 4 = CHR ''X''"
    by (simp_all add: char_at_def isPlain_def i64Prefix_def)
  show ?thesis
    using fast_integer_path_equals_backend
            [where ?v32.0 = "- 2147483648" and ?v64.0 = 18446744073709551615 and count = 11
               and format_str = "''%d''" and vsnprintf = vsnprintf_fails and pf = Win32]
          fast_integer_path_equals_backend
            [where ?v32.0 = "- 2147483648" and ?v64.0 = 18446744073709551615 and count = 16
               and format_str = "''%I64X''" and vsnprintf = vsnprintf_fails and pf = Win32]
    by (simp only: a b c) simp
qed

section \<open>The zero-argument path\<close>

lemma char_at_c_str: "k < strlen s \<Longrightarrow> char_at s k = c_str s ! k"
proof -
  assume k: "k < strlen s"
  then have "k < length s"
    unfolding strlen_def c_str_def
    by (meson length_takeWhile_le less_le_trans)
  with k show ?thesis
    by (simp add: char_at_def strlen_def c_str_def takeWhile_nth)
qed

lemma char_at_strlen: "char_at s (strlen s) = NUL"
proof (cases "strlen s < length s")
  case True
  then show ?thesis
    using nth_length_takeWhile [of "\<lambda>c. c \<noteq> NUL" s]
    by (simp add: char_at_def strlen_def c_str_def)
next
  case False
  then show ?thesis by (simp add: char_at_def)
qed

lemma c_bytes_strlen: "c_bytes s (strlen s + 1) = map Some (c_str s @ [NUL])"
proof (rule nth_equalityI)
  show "length (c_bytes s (strlen s + 1)) = length (map Some (c_str s @ [NUL]))"
    by (simp add: c_bytes_def strlen_def)
next
  fix k assume "k < length (c_bytes s (strlen s + 1))"
  then have k: "k < strlen s + 1" by (simp add: c_bytes_def)
  show "c_bytes s (strlen s + 1) ! k = map Some (c_str s @ [NUL]) ! k"
  proof (cases "k < strlen s")
    case True
    then show ?thesis
      using k by (simp add: c_bytes_def char_at_c_str nth_append strlen_def)
  next
    case False
    with k have "k = strlen s" by simp
    moreover have "length (c_str s) = strlen s" by (simp add: strlen_def)
    ultimately show ?thesis
      by (simp add: c_bytes_def char_at_strlen nth_append)
  qed
qed

lemma memcpy_whole: "length src = n \<Longrightarrow> take n (memcpy dst src n) = src"
  by (simp add: memcpy_def)

text \<open>
  C2. Called with zero arguments, \<open>fmt_core\<close> returns; the length is that of the
  format string, the bytes stored at the returned pointer are the characters of the
  format string followed by the terminator, and the pointer is the caller's buffer or
  the first block obtained from \<^verbatim>\<open>new[]\<close>, never the memory of the format string.
\<close>

theorem fmt_core_zero_arguments:
  "\<exists>r. fmt_core pf vsnprintf cx fmt 0 args staticbuf_size = Some r
       \<and> Len r = strlen fmt
       \<and> result_text r = map Some (c_str fmt)
       \<and> Stored r = map Some (c_str fmt @ [NUL])
       \<and> Str r \<noteq> FmtStr
       \<and> (Str r = StaticBuf \<or> Str r = HeapBlock 0)"
proof -
  have len: "length (c_bytes fmt (strlen fmt + 1)) = strlen fmt + 1"
    by (simp add: c_bytes_def)
  have st: "take (strlen fmt + 1) (memcpy dst (c_bytes fmt (strlen fmt + 1)) (strlen fmt + 1))
              = map Some (c_str fmt @ [NUL])" for dst
    using memcpy_whole [OF len, of dst] by (simp only: c_bytes_strlen)
  show ?thesis
    by (cases "staticbuf_size \<noteq> 0 \<and> strlen fmt \<le> staticbuf_size + 1")
       (simp_all only: fmt_core_def Let_def st, auto simp: result_text_def strlen_def)
qed

theorem fmt_core_zero_arguments_witness:
  "fmt_core Win32 vsnprintf_fails default_context ''hello'' 0 [TNull] 16
     = Some \<lparr>Str = StaticBuf, Len = 5, Stored = map Some (''hello'' @ [NUL])\<rparr>
   \<and> fmt_core Win32 vsnprintf_fails default_context ''100%'' 0 [TNull] 0
     = Some \<lparr>Str = HeapBlock 0, Len = 4, Stored = map Some (''100%'' @ [NUL])\<rparr>"
proof -
  have "c_str ''hello'' = ''hello''" "strlen ''hello'' = 5" "c_str ''100%'' = ''100%''" "strlen ''100%'' = 4"
    by (simp_all add: c_str_def strlen_def NUL_def)
  moreover have "fmt_core Win32 vsnprintf_fails default_context ''hello'' 0 [TNull] 16
                   = Some \<lparr>Str = StaticBuf, Len = 5, Stored = map Some (''hello'' @ [NUL])\<rparr>"
    by code_simp
  moreover have "fmt_core Win32 vsnprintf_fails default_context ''100%'' 0 [TNull] 0
                   = Some \<lparr>Str = HeapBlock 0, Len = 4, Stored = map Some (''100%'' @ [NUL])\<rparr>"
    by code_simp
  ultimately show ?thesis
    using fmt_core_zero_arguments [of Win32 vsnprintf_fails default_context "''hello''" "[TNull]" 16]
    by simp
qed

section \<open>The buffer operations keep the invariant\<close>

lemma StackBuffer_new_ok: "buffer_ok (StackBuffer_new n)"
  by (simp add: buffer_ok_def StackBuffer_new_def)

lemma AddUninitialized_ok: "buffer_ok b \<Longrightarrow> buffer_ok (snd (AddUninitialized n b))"
  using Reserve_ok [of b n] Reserve_room [of b n]
  by (simp add: AddUninitialized_def Let_def buffer_ok_def)

lemma AddUninitialized_Pos:
  "fst (AddUninitialized n b) = Pos b" "Pos (snd (AddUninitialized n b)) = Pos b + n"
  by (simp_all add: AddUninitialized_def Let_def)

lemma Reserve_appended: "buffer_ok b \<Longrightarrow> appended (Reserve n b) = appended b"
  by (simp add: appended_def Reserve_def Let_def memcpy_def buffer_ok_def)

lemma Add_ok: "buffer_ok b \<Longrightarrow> buffer_ok (Add c b)"
  using Reserve_ok [of b 1] Reserve_room [of b 1]
  by (simp add: Add_def AddUninitialized_def Let_def buffer_ok_def)

lemma Add_Pos: "Pos (Add c b) = Pos b + 1"
  by (simp add: Add_def AddUninitialized_def Let_def)

lemma Add_appended: "buffer_ok b \<Longrightarrow> appended (Add c b) = appended b @ [Some c]"
proof -
  assume ok: "buffer_ok b"
  let ?r = "Reserve 1 b"
  have okr: "buffer_ok ?r" using ok by (rule Reserve_ok)
  have room: "Pos b < length (Data ?r)"
    using okr Reserve_room [of b 1] by (simp add: buffer_ok_def)
  have "appended (Add c b) = take (Pos b + 1) ((Data ?r)[Pos b := Some c])"
    by (simp add: Add_def AddUninitialized_def Let_def appended_def)
  also have "\<dots> = take (Pos b) (Data ?r) @ [Some c]"
    using room by (simp add: take_Suc_conv_app_nth)
  also have "take (Pos b) (Data ?r) = appended b"
    using Reserve_appended [OF ok, of 1] by (simp add: appended_def)
  finally show ?thesis .
qed

lemma add_range_props:
  "buffer_ok b \<Longrightarrow> j \<le> i + 1 \<Longrightarrow>
     buffer_ok (add_range fmt j i b)
   \<and> appended (add_range fmt j i b) = appended b @ map (\<lambda>k. Some (fmt_at fmt k)) [j..i]
   \<and> Pos (add_range fmt j i b) = Pos b + nat (i + 1 - j)"
proof (induction fmt j i b rule: add_range.induct)
  case (1 fmt j i out)
  show ?case
  proof (cases "j \<le> i")
    case True
    have ok': "buffer_ok (Add (fmt_at fmt j) out)"
      using "1.prems" by (simp add: Add_ok)
    have "[j..i] = j # [j + 1..i]"
      using True by (simp add: upto_rec1)
    then show ?thesis
      using "1.IH" [OF True ok'] True "1.prems"
      by (simp add: add_range.simps [of fmt j i out] Add_appended Add_Pos nat_add_distrib)
  next
    case False
    with "1.prems" show ?thesis
      by (simp add: add_range.simps [of fmt j i out])
  qed
qed

section \<open>Directives that are not substituted\<close>

lemma letter_not_NUL: "c \<in> set conversion_letters \<Longrightarrow> c \<noteq> NUL"
  by (auto simp: conversion_letters_def NUL_def)

text \<open>
  C5. In a directive that began at \<open>tokenstart\<close>, when the character at \<open>i\<close> is one
  of the conversion letters and no argument remains, or the directive with its letter has
  16 characters or more, or the letter is \<open>n\<close>, or it is \<open>q\<close> (\<open>Q\<close>) and the callback is
  unset: the body appends the characters of the format string from \<open>tokenstart\<close> through
  \<open>i\<close>, leaves the argument index and the scratch array as they are, and the loop goes on
  outside a directive at \<open>i + 1\<close>.
\<close>

theorem directive_passthrough:
  assumes "0 \<le> tokenstart" "tokenstart < i"
    and "fmt_at fmt i \<in> set conversion_letters"
    and "nargs \<le> iarg
         \<or> int argbuf_arraysize \<le> i - tokenstart + 1
         \<or> fmt_at fmt i = CHR ''n''
         \<or> (fmt_at fmt i = CHR ''q'' \<and> Escape_q cx = None)
         \<or> (fmt_at fmt i = CHR ''Q'' \<and> Escape_Q cx = None)"
    and "buffer_ok output"
  shows "loop_body pf vsnprintf cx fmt nargs args guess i tokenstart iarg output argbuf
           = Some (False, i, - 1, iarg, add_range fmt tokenstart i output, argbuf)
       \<and> appended (add_range fmt tokenstart i output)
           = appended output @ map (\<lambda>k. Some (fmt_at fmt k)) [tokenstart..i]
       \<and> fmt_loop pf vsnprintf cx fmt nargs args guess i tokenstart iarg output argbuf
           = fmt_loop pf vsnprintf cx fmt nargs args guess (i + 1) (- 1) iarg
               (add_range fmt tokenstart i output) argbuf"
proof -
  have ts: "tokenstart \<noteq> - 1" using assms(1) by simp
  have body: "loop_body pf vsnprintf cx fmt nargs args guess i tokenstart iarg output argbuf
                = Some (False, i, - 1, iarg, add_range fmt tokenstart i output, argbuf)"
    using ts assms(3,4) by (auto simp: loop_body_def Let_def argbuf_arraysize_def)
  have app: "appended (add_range fmt tokenstart i output)
               = appended output @ map (\<lambda>k. Some (fmt_at fmt k)) [tokenstart..i]"
    using add_range_props [OF assms(5), of tokenstart i fmt] assms(2) by simp
  have "fmt_at fmt i \<noteq> NUL"
    using assms(3) by (rule letter_not_NUL)
  then have "fmt_loop pf vsnprintf cx fmt nargs args guess i tokenstart iarg output argbuf
           = fmt_loop pf vsnprintf cx fmt nargs args guess (i + 1) (- 1) iarg
               (add_range fmt tokenstart i output) argbuf"
    by (subst fmt_loop.simps) (simp add: body)
  with body app show ?thesis by simp
qed

theorem directive_passthrough_witness:
  "(0::int) \<le> 1 \<and> (1::int) < 2
   \<and> fmt_at ''a%q'' 2 \<in> set conversion_letters
   \<and> fmt_at ''a%q'' 2 = CHR ''q'' \<and> Escape_q default_context = None
   \<and> buffer_ok (Add (CHR ''a'') (StackBuffer_new 8))
   \<and> loop_body Win32 vsnprintf_fails default_context ''a%q'' 1 [TI32 42] 2
        2 1 0 (Add (CHR ''a'') (StackBuffer_new 8)) (replicate 16 NUL)
      = Some (False, 2, - 1, 0, add_range ''a%q'' 1 2 (Add (CHR ''a'') (StackBuffer_new 8)),
              replicate 16 NUL)
   \<and> appended (add_range ''a%q'' 1 2 (Add (CHR ''a'') (StackBuffer_new 8)))
      = map Some ''a%q''
   \<and> map_option result_text (fmt_buf Win32 vsnprintf_fails default_context 8 ''a%q'' [TI32 42])
      = Some (map Some ''a%q'')"
proof -
  have h: "(0::int) \<le> 1" "(1::int) < 2" "fmt_at ''a%q'' 2 \<in> set conversion_letters"
       "fmt_at ''a%q'' 2 = CHR ''q''" "Escape_q default_context = None"
       "buffer_ok (Add (CHR ''a'') (StackBuffer_new 8))"
    by code_simp+
  have d: "(1::int) \<le> 0
         \<or> int argbuf_arraysize \<le> 2 - 1 + 1
         \<or> fmt_at ''a%q'' 2 = CHR ''n''
         \<or> (fmt_at ''a%q'' 2 = CHR ''q'' \<and> Escape_q default_context = None)
         \<or> (fmt_at ''a%q'' 2 = CHR ''Q'' \<and> Escape_Q default_context = None)"
    using h by simp
  have e: "appended (Add (CHR ''a'') (StackBuffer_new 8)) = [Some (CHR ''a'')]"
          "map (\<lambda>k. Some (fmt_at ''a%q'' k)) [1..2] = [Some (CHR ''%''), Some (CHR ''q'')]"
          "map_option result_text (fmt_buf Win32 vsnprintf_fails default_context 8 ''a%q'' [TI32 42])
             = Some (map Some ''a%q'')"
    by code_simp+
  show ?thesis
    using directive_passthrough [OF h(1) h(2) h(3) d h(6), of Win32 vsnprintf_fails "[TI32 42]" 2 "replicate 16 NUL"] h e
    by simp
qed

text \<open>The hypotheses on \<open>i\<close> and \<open>tokenstart\<close> describe every pass of the scan: from
  \<open>i = 0\<close> and \<open>tokenstart = - 1\<close> on, \<open>i\<close> is not negative and \<open>tokenstart\<close> is \<open>- 1\<close> or
  the offset of a \<open>%\<close> before \<open>i\<close>.\<close>

lemma copy_literal_index: "i \<le> fst (copy_literal fmt stopAt i b)"
proof (induction fmt stopAt i b rule: copy_literal.induct)
  case (1 fmt stopAt i out)
  show ?case
  proof (cases "i < stopAt \<and> fmt_at fmt i \<noteq> CHR ''%'' \<and> fmt_at fmt i \<noteq> NUL")
    case True
    then show ?thesis
      using "1.IH" [OF True] by (simp add: copy_literal.simps [of fmt stopAt i out])
  next
    case False
    then show ?thesis
      by (auto simp: copy_literal.simps [of fmt stopAt i out])
  qed
qed

lemma loop_body_positions:
  assumes "loop_body pf vsnprintf cx fmt nargs args guess i tokenstart iarg b argbuf
             = Some (brk, i', tokenstart', iarg', b', argbuf')"
    and "0 \<le> i" "tokenstart = - 1 \<or> (0 \<le> tokenstart \<and> tokenstart < i)"
  shows "0 \<le> i' + 1 \<and> (tokenstart' = - 1 \<or> (0 \<le> tokenstart' \<and> tokenstart' < i' + 1))"
proof (cases "tokenstart \<noteq> - 1")
  case True
  then have "i' = i \<and> (tokenstart' = - 1 \<or> tokenstart' = tokenstart)"
    using assms(1)
    by (auto simp: loop_body_def Let_def split: if_splits prod.splits Option.bind_splits)
  then show ?thesis
    using assms(2,3) by auto
next
  case False
  obtain i1 out1 where cl: "copy_literal fmt (i + int (RemainingSpace b)) i b = (i1, out1)"
    by (cases "copy_literal fmt (i + int (RemainingSpace b)) i b")
  have "i \<le> i1"
    using copy_literal_index [of i fmt "i + int (RemainingSpace b)" b] cl by simp
  moreover have "(i' = i1 \<and> (tokenstart' = i1 \<or> tokenstart' = - 1))
                 \<or> (i' = i1 - 1 \<and> tokenstart' = - 1)"
    using assms(1) False cl by (auto simp: loop_body_def Let_def split: if_splits)
  ultimately show ?thesis
    using assms(2) by auto
qed

section \<open>Characters inside a directive that are not conversion letters\<close>

text \<open>
  C4, as the specification states it, fails: the characters of a directive that a
  \<open>%\<close> ends, and those of a directive still open at the end of the string, do not reach
  the output.
\<close>

theorem unrecognized_terminator_counterexample:
  "map_option result_text (fmt_buf Win32 vsnprintf_fails default_context 16 ''a%!%b'' [TI32 7])
     = Some (map Some ''a%b'')
   \<and> map_option result_text (fmt_buf Win32 vsnprintf_fails default_context 16 ''a%!'' [TI32 7])
     = Some (map Some ''a'')"
  by code_simp

text \<open>
  C4, amended. Inside a directive, a character that is neither a conversion letter nor
  \<open>%\<close> does not end the directive and is no error: the body writes nothing, keeps
  \<open>tokenstart\<close>, the argument index, the buffer and the scratch array, and the loop goes
  on at the next character. A \<open>%\<close> ends the directive with a single \<open>%\<close> appended.
\<close>

theorem directive_stays_open:
  assumes "tokenstart \<noteq> - 1" and "fmt_at fmt i \<noteq> NUL" and "buffer_ok output"
  shows "(fmt_at fmt i \<notin> set conversion_letters \<and> fmt_at fmt i \<noteq> CHR ''%'' \<longrightarrow>
            loop_body pf vsnprintf cx fmt nargs args guess i tokenstart iarg output argbuf
              = Some (False, i, tokenstart, iarg, output, argbuf)
          \<and> fmt_loop pf vsnprintf cx fmt nargs args guess i tokenstart iarg output argbuf
              = fmt_loop pf vsnprintf cx fmt nargs args guess (i + 1) tokenstart iarg output argbuf)
       \<and> (fmt_at fmt i = CHR ''%'' \<longrightarrow>
            loop_body pf vsnprintf cx fmt nargs args guess i tokenstart iarg output argbuf
              = Some (False, i, - 1, iarg, Add (CHR ''%'') output, argbuf)
          \<and> appended (Add (CHR ''%'') output) = appended output @ [Some (CHR ''%'')]
          \<and> fmt_loop pf vsnprintf cx fmt nargs args guess i tokenstart iarg output argbuf
              = fmt_loop pf vsnprintf cx fmt nargs args guess (i + 1) (- 1) iarg
                  (Add (CHR ''%'') output) argbuf)"
proof -
  have pc: "CHR ''%'' \<notin> set conversion_letters"
    by (simp add: conversion_letters_def)
  have a: "fmt_at fmt i \<notin> set conversion_letters \<and> fmt_at fmt i \<noteq> CHR ''%'' \<longrightarrow>
            loop_body pf vsnprintf cx fmt nargs args guess i tokenstart iarg output argbuf
              = Some (False, i, tokenstart, iarg, output, argbuf)"
    using assms(1) by (simp add: loop_body_def Let_def)
  have b: "fmt_at fmt i = CHR ''%'' \<longrightarrow>
            loop_body pf vsnprintf cx fmt nargs args guess i tokenstart iarg output argbuf
              = Some (False, i, - 1, iarg, Add (CHR ''%'') output, argbuf)"
    using assms(1) pc by (simp add: loop_body_def Let_def)
  show ?thesis
    using a b assms(2) Add_appended [OF assms(3), of "CHR ''%''"]
    by (subst (1 2) fmt_loop.simps) auto
qed

theorem directive_stays_open_witness:
  "(0::int) \<noteq> - 1 \<and> fmt_at ''%-5d'' 1 \<noteq> NUL \<and> buffer_ok (StackBuffer_new 8)
   \<and> fmt_at ''%-5d'' 1 \<notin> set conversion_letters \<and> fmt_at ''%-5d'' 1 \<noteq> CHR ''%''
   \<and> loop_body Win32 vsnprintf_fails default_context ''%-5d'' 1 [TI32 7] 2
        1 0 0 (StackBuffer_new 8) (replicate 16 NUL)
      = Some (False, 1, 0, 0, StackBuffer_new 8, replicate 16 NUL)
   \<and> fmt_at ''%-%'' 2 = CHR ''%''
   \<and> loop_body Win32 vsnprintf_fails default_context ''%-%'' 1 [TI32 7] 2
        2 0 0 (StackBuffer_new 8) (replicate 16 NUL)
      = Some (False, 2, - 1, 0, Add (CHR ''%'') (StackBuffer_new 8), replicate 16 NUL)"
proof -
  have h: "(0::int) \<noteq> - 1" "fmt_at ''%-5d'' 1 \<noteq> NUL" "buffer_ok (StackBuffer_new 8)"
          "fmt_at ''%-5d'' 1 \<notin> set conversion_letters" "fmt_at ''%-5d'' 1 \<noteq> CHR ''%''"
          "fmt_at ''%-%'' 2 = CHR ''%''" "fmt_at ''%-%'' 2 \<noteq> NUL"
    by code_simp+
  show ?thesis
    using directive_stays_open [OF h(1) h(2) h(3), of Win32 vsnprintf_fails default_context 1 "[TI32 7]" 2 0 "replicate 16 NUL"]
          directive_stays_open [OF h(1) h(7) h(3), of Win32 vsnprintf_fails default_context 1 "[TI32 7]" 2 0 "replicate 16 NUL"]
          h
    by simp
qed

section \<open>The invariant through the engine\<close>

lemma write_at_length [simp]: "length (write_at d p s) = length d"
  by (induction s arbitrary: d p) simp_all

lemma MoveCurrentPos_ok:
  assumes "buffer_ok b" "0 \<le> int (Pos b) + d" "int (Pos b) + d \<le> int (Capacity b)"
  shows "buffer_ok (MoveCurrentPos d b)"
proof -
  have "(int (Pos b) + d) mod 2 ^ 64 \<le> int (Pos b) + d"
    using assms(2) by (simp add: zmod_le_nonneg_dividend)
  then show ?thesis
    using assms by (simp add: MoveCurrentPos_def buffer_ok_def)
qed

lemma retract_ok:
  assumes "buffer_ok b" "0 \<le> written" "written < outputSize"
  shows "buffer_ok (MoveCurrentPos (written - outputSize) (snd (AddUninitialized (nat outputSize) b)))"
proof (rule MoveCurrentPos_ok)
  show "buffer_ok (snd (AddUninitialized (nat outputSize) b))"
    using assms(1) by (rule AddUninitialized_ok)
  show "0 \<le> int (Pos (snd (AddUninitialized (nat outputSize) b))) + (written - outputSize)"
    using assms(2,3) by (simp add: AddUninitialized_Pos)
  show "int (Pos (snd (AddUninitialized (nat outputSize) b))) + (written - outputSize)
          \<le> int (Capacity (snd (AddUninitialized (nat outputSize) b)))"
    using AddUninitialized_ok [OF assms(1), of "nat outputSize"] assms(2,3)
    by (simp add: buffer_ok_def)
qed

lemma discard_ok:
  assumes "buffer_ok b" "0 \<le> outputSize"
  shows "buffer_ok (MoveCurrentPos (- outputSize) (snd (AddUninitialized (nat outputSize) b)))"
proof (rule MoveCurrentPos_ok)
  show "buffer_ok (snd (AddUninitialized (nat outputSize) b))"
    using assms(1) by (rule AddUninitialized_ok)
  show "0 \<le> int (Pos (snd (AddUninitialized (nat outputSize) b))) + - outputSize"
    using assms(2) by (simp add: AddUninitialized_Pos)
  show "int (Pos (snd (AddUninitialized (nat outputSize) b))) + - outputSize
          \<le> int (Capacity (snd (AddUninitialized (nat outputSize) b)))"
    using AddUninitialized_ok [OF assms(1), of "nat outputSize"] assms(2)
    by (simp add: buffer_ok_def)
qed

lemma Pos_MoveCurrentPos_stored [simp]:
  "MoveCurrentPos d (b\<lparr>Data := x\<rparr>) = (MoveCurrentPos d b)\<lparr>Data := x\<rparr>"
  by (simp add: MoveCurrentPos_def)

lemma retry_loop_ok_aux:
  "retry_loop pf vsnprintf cx c argbufsize arg outputSize b argbuf = Some y
     \<Longrightarrow> 0 \<le> outputSize \<and> buffer_ok b \<longrightarrow> buffer_ok (fst y)"
proof (induction rule: retry_loop.raw_induct [rotated 1, consumes 1])
  case (1 retry_loop pf vsnprintf cx c argbufsize arg outputSize out argbuf y)
  note IH = "1"(1) and body = "1"(2)
  show ?case
  proof (intro impI, elim conjE)
  assume pos: "0 \<le> outputSize" and ok: "buffer_ok out"
  obtain outbuf out1 where au: "AddUninitialized (nat outputSize) out = (outbuf, out1)"
    by (cases "AddUninitialized (nat outputSize) out")
  then have out1: "out1 = snd (AddUninitialized (nat outputSize) out)" by simp
  from body au obtain stored written argbuf' where
    step: "(if 0 \<le> written \<and> written < outputSize
            then Some (MoveCurrentPos (written - outputSize)
                         (out1\<lparr>Data := write_at (Data out1) outbuf stored\<rparr>), argbuf')
            else if MaxOutputSize \<le> outputSize
                 then Some (out1\<lparr>Data := write_at (Data out1) outbuf stored\<rparr>, argbuf')
                 else retry_loop pf vsnprintf cx c argbufsize arg (outputSize * 2)
                        (MoveCurrentPos (- outputSize)
                           (out1\<lparr>Data := write_at (Data out1) outbuf stored\<rparr>)) argbuf') = Some y"
    by (auto simp: Let_def split: Option.bind_splits)
  have ok1: "buffer_ok out1"
    unfolding out1 using ok by (rule AddUninitialized_ok)
  show "buffer_ok (fst y)"
  proof (cases "0 \<le> written \<and> written < outputSize")
    case True
    with step have "fst y = (MoveCurrentPos (written - outputSize) out1)
                              \<lparr>Data := write_at (Data out1) outbuf stored\<rparr>"
      by auto
    moreover have "buffer_ok (MoveCurrentPos (written - outputSize) out1)"
      unfolding out1 using ok True by (simp add: retract_ok)
    ultimately show ?thesis
      by (simp add: buffer_ok_def MoveCurrentPos_def)
  next
    case False
    show ?thesis
    proof (cases "MaxOutputSize \<le> outputSize")
      case True
      with False step have "fst y = out1\<lparr>Data := write_at (Data out1) outbuf stored\<rparr>"
        by auto
      with ok1 show ?thesis by (simp add: buffer_ok_def)
    next
      case nomax: False
      with False step have rec:
        "retry_loop pf vsnprintf cx c argbufsize arg (outputSize * 2)
           ((MoveCurrentPos (- outputSize) out1)\<lparr>Data := write_at (Data out1) outbuf stored\<rparr>)
           argbuf' = Some y"
        by auto
      have "buffer_ok (MoveCurrentPos (- outputSize) out1)"
        unfolding out1 using pos ok by (simp add: discard_ok)
      then have "buffer_ok ((MoveCurrentPos (- outputSize) out1)
                              \<lparr>Data := write_at (Data out1) outbuf stored\<rparr>)"
        by (simp add: buffer_ok_def MoveCurrentPos_def)
      moreover have "0 \<le> outputSize * 2" using pos by simp
      ultimately show ?thesis
        using IH [OF rec] by blast
    qed
  qed
  qed
qed

lemma retry_loop_ok:
  "retry_loop pf vsnprintf cx c argbufsize arg outputSize b argbuf = Some (b', argbuf')
     \<Longrightarrow> 0 \<le> outputSize \<Longrightarrow> buffer_ok b \<Longrightarrow> buffer_ok b'"
  using retry_loop_ok_aux by fastforce

lemma add_range_ok: "buffer_ok b \<Longrightarrow> buffer_ok (add_range fmt j i b)"
proof (induction fmt j i b rule: add_range.induct)
  case (1 fmt j i out)
  show ?case
  proof (cases "j \<le> i")
    case True
    then show ?thesis
      using "1.IH" [OF True] "1.prems" by (simp add: add_range.simps [of fmt j i out] Add_ok)
  next
    case False
    then show ?thesis
      using "1.prems" by (simp add: add_range.simps [of fmt j i out])
  qed
qed

lemma RemainingSpace_le: "buffer_ok b \<Longrightarrow> RemainingSpace b \<le> Capacity b - Pos b"
proof -
  assume "buffer_ok b"
  then have nn: "0 \<le> int (Capacity b) - int (Pos b)"
    by (simp add: buffer_ok_def)
  then have "(int (Capacity b) - int (Pos b)) mod 2 ^ 64 \<le> int (Capacity b) - int (Pos b)"
    by (simp add: zmod_le_nonneg_dividend)
  then show ?thesis
    by (simp add: RemainingSpace_def)
qed

lemma copy_literal_ok_aux:
  "buffer_ok b \<Longrightarrow> stopAt \<le> i + int (Capacity b - Pos b)
     \<Longrightarrow> buffer_ok (snd (copy_literal fmt stopAt i b))"
proof (induction fmt stopAt i b rule: copy_literal.induct)
  case (1 fmt stopAt i out)
  show ?case
  proof (cases "i < stopAt \<and> fmt_at fmt i \<noteq> CHR ''%'' \<and> fmt_at fmt i \<noteq> NUL")
    case True
    let ?out' = "out\<lparr>Data := (Data out)[Pos out := Some (fmt_at fmt i)], Pos := Pos out + 1\<rparr>"
    have room: "Pos out < Capacity out"
      using True "1.prems" by (auto simp: buffer_ok_def)
    then have ok': "buffer_ok ?out'"
      using "1.prems" by (simp add: buffer_ok_def)
    have st: "stopAt \<le> i + 1 + int (Capacity ?out' - Pos ?out')"
      using "1.prems" room by simp
    show ?thesis
      using "1.IH" [OF True ok' st] True by (simp add: copy_literal.simps [of fmt stopAt i out])
  next
    case False
    then show ?thesis
      using "1.prems" by (auto simp: copy_literal.simps [of fmt stopAt i out])
  qed
qed

lemma copy_literal_ok:
  "buffer_ok b \<Longrightarrow> buffer_ok (snd (copy_literal fmt (i + int (RemainingSpace b)) i b))"
proof (rule copy_literal_ok_aux)
  assume "buffer_ok b"
  then show "i + int (RemainingSpace b) \<le> i + int (Capacity b - Pos b)"
    using RemainingSpace_le [of b] by simp
qed

lemma loop_body_ok:
  assumes "loop_body pf vsnprintf cx fmt nargs args guess i tokenstart iarg b argbuf
             = Some (brk, i', tokenstart', iarg', b', argbuf')"
    and "buffer_ok b"
  shows "buffer_ok b'"
proof (cases "tokenstart \<noteq> - 1")
  case True
  show ?thesis
  proof (cases "fmt_at fmt i \<in> set conversion_letters")
    case letter: True
    show ?thesis
    proof (cases "nargs \<le> iarg \<or> int argbuf_arraysize - 1 \<le> i - tokenstart
                  \<or> fmt_at fmt i = CHR ''n''
                  \<or> (fmt_at fmt i = CHR ''q'' \<and> Escape_q cx = None)
                  \<or> (fmt_at fmt i = CHR ''Q'' \<and> Escape_Q cx = None)")
      case pass: True
      then have "b' = add_range fmt tokenstart i b"
        using assms(1) True letter by (auto simp: loop_body_def Let_def)
      then show ?thesis
        using assms(2) by (simp add: add_range_ok)
    next
      case subst: False
      obtain argbuf1 argbufsize where ba: "build_argbuf fmt tokenstart i argbuf 0 = (argbuf1, argbufsize)"
        by (cases "build_argbuf fmt tokenstart i argbuf 0")
      from assms(1) True letter subst ba obtain ab where
        "retry_loop pf vsnprintf cx (fmt_at fmt i) argbufsize (arg_at args iarg) (int guess) b argbuf1
           = Some (b', ab)"
        by (auto simp: loop_body_def Let_def split: Option.bind_splits)
      then show ?thesis
        using assms(2) retry_loop_ok [of pf vsnprintf cx "fmt_at fmt i" argbufsize "arg_at args iarg"
                                          "int guess" b argbuf1 b' ab]
        by simp
    qed
  next
    case noletter: False
    then have "b' = Add (CHR ''%'') b \<or> b' = b"
      using assms(1) True by (auto simp: loop_body_def Let_def split: if_splits)
    then show ?thesis
      using assms(2) by (auto simp: Add_ok)
  qed
next
  case False
  obtain i1 out1 where cl: "copy_literal fmt (i + int (RemainingSpace b)) i b = (i1, out1)"
    by (cases "copy_literal fmt (i + int (RemainingSpace b)) i b")
  have ok1: "buffer_ok out1"
    using copy_literal_ok [OF assms(2), of fmt i] cl by simp
  have "b' = out1 \<or> b' = Reserve 1 out1"
    using assms(1) False cl by (auto simp: loop_body_def Let_def split: if_splits)
  then show ?thesis
    using ok1 by (auto simp: Reserve_ok)
qed

lemma fmt_loop_ok_aux:
  "fmt_loop pf vsnprintf cx fmt nargs args guess i tokenstart iarg b argbuf = Some b'
     \<Longrightarrow> buffer_ok b \<longrightarrow> buffer_ok b'"
proof (induction rule: fmt_loop.raw_induct [rotated 1, consumes 1])
  case (1 fmt_loop pf vsnprintf cx fmt nargs args guess i tokenstart iarg out argbuf y)
  note IH = "1"(1) and body = "1"(2)
  show ?case
  proof
    assume ok: "buffer_ok out"
    show "buffer_ok y"
    proof (cases "fmt_at fmt i = NUL")
      case True
      with body ok show ?thesis by simp
    next
      case False
      with body obtain brk i' ts' iarg' out' argbuf' where
        lb: "loop_body pf vsnprintf cx fmt nargs args guess i tokenstart iarg out argbuf
               = Some (brk, i', ts', iarg', out', argbuf')"
        and rest: "(if brk then Some out'
                    else fmt_loop pf vsnprintf cx fmt nargs args guess (i' + 1) ts' iarg' out' argbuf')
                   = Some y"
        by (auto split: Option.bind_splits)
      have ok': "buffer_ok out'"
        using lb ok by (rule loop_body_ok)
      show ?thesis
      proof (cases brk)
        case True
        with rest ok' show ?thesis by simp
      next
        case False
        with rest have "fmt_loop pf vsnprintf cx fmt nargs args guess (i' + 1) ts' iarg' out' argbuf' = Some y"
          by simp
        from IH [OF this] ok' show ?thesis by blast
      qed
    qed
  qed
qed

lemma fmt_loop_ok:
  "fmt_loop pf vsnprintf cx fmt nargs args guess i tokenstart iarg b argbuf = Some b'
     \<Longrightarrow> buffer_ok b \<Longrightarrow> buffer_ok b'"
  using fmt_loop_ok_aux by blast




section \<open>The generic letter and the override of a conflicting letter\<close>








lemma format_int32_returns: "\<exists>r. format_int32 vsnprintf count format_str v = Some r"
  by (simp add: format_int32_def Let_def
        format_integer_signed [where tbase = 10] format_integer_unsigned [where tbase = 10]
        format_integer_unsigned [where tbase = 16])

lemma format_int64_returns: "\<exists>r. format_int64 pf vsnprintf count format_str v = Some r"
  by (simp add: format_int64_def Let_def
        format_integer_signed [where tbase = 10] format_integer_unsigned [where tbase = 10]
        format_integer_unsigned [where tbase = 16])

lemma fmt_output_with_snprintf_returns:
  "\<exists>r a. fmt_output_with_snprintf pf vsnprintf fmt_type argbuf argbufsize outputSize arg
          = Some (r, a)"
proof (cases arg)
  case (TI32 v)
  obtain a where a: "a = (if fmt_type = CHR ''c'' then fmt_settype argbuf argbufsize (Some []) (CHR ''c'')
                   else if tokenint fmt_type then fmt_settype argbuf argbufsize (Some []) fmt_type
                   else fmt_settype argbuf argbufsize (Some []) (CHR ''d''))" by simp
  obtain r where "format_int32 vsnprintf outputSize a v = Some r"
    using format_int32_returns by blast
  with TI32 a show ?thesis
    by (simp add: fmt_output_with_snprintf_def Let_def)
next
  case (TU32 v)
  obtain a where a: "a = (if tokenint fmt_type then fmt_settype argbuf argbufsize (Some []) fmt_type
                   else fmt_settype argbuf argbufsize (Some []) (CHR ''u''))" by simp
  obtain r where "format_int32 vsnprintf outputSize a v = Some r"
    using format_int32_returns by blast
  with TU32 a show ?thesis
    by (simp add: fmt_output_with_snprintf_def Let_def)
next
  case (TI64 v)
  obtain a where a: "a = (if tokenint fmt_type then fmt_settype argbuf argbufsize (Some (i64Prefix pf)) fmt_type
                   else fmt_settype argbuf argbufsize (Some (i64Prefix pf)) (CHR ''d''))" by simp
  obtain r where "format_int64 pf vsnprintf outputSize a v = Some r"
    using format_int64_returns by blast
  with TI64 a show ?thesis
    by (simp add: fmt_output_with_snprintf_def Let_def)
next
  case (TU64 v)
  obtain a where a: "a = (if tokenint fmt_type then fmt_settype argbuf argbufsize (Some (i64Prefix pf)) fmt_type
                   else fmt_settype argbuf argbufsize (Some (i64Prefix pf)) (CHR ''u''))" by simp
  obtain r where "format_int64 pf vsnprintf outputSize a v = Some r"
    using format_int64_returns by blast
  with TU64 a show ?thesis
    by (simp add: fmt_output_with_snprintf_def Let_def)
qed (simp_all add: fmt_output_with_snprintf_def Let_def)











section \<open>The retry loop with an initial guess of zero\<close>

lemma retry_loop_zero_aux:
  "retry_loop pf vsnprintf cx c argbufsize arg outputSize b argbuf = Some y \<Longrightarrow> outputSize \<noteq> 0"
proof (induction rule: retry_loop.raw_induct [rotated 1, consumes 1])
  case (1 f pf vsnprintf cx c argbufsize arg outputSize out argbuf y)
  note IH = "1"(1) and body = "1"(2)
  show ?case
  proof
    assume z: "outputSize = 0"
    obtain outbuf out1 where au: "AddUninitialized (nat outputSize) out = (outbuf, out1)"
      by (cases "AddUninitialized (nat outputSize) out")
    from body au obtain stored written argbuf' where
      step: "(if 0 \<le> written \<and> written < outputSize
            then Some (MoveCurrentPos (written - outputSize)
                         (out1\<lparr>Data := write_at (Data out1) outbuf stored\<rparr>), argbuf')
            else if MaxOutputSize \<le> outputSize
                 then Some (out1\<lparr>Data := write_at (Data out1) outbuf stored\<rparr>, argbuf')
                 else f pf vsnprintf cx c argbufsize arg (outputSize * 2)
                        (MoveCurrentPos (- outputSize)
                           (out1\<lparr>Data := write_at (Data out1) outbuf stored\<rparr>)) argbuf') = Some y"
      by (auto simp: Let_def split: Option.bind_splits)
    have "\<not> MaxOutputSize \<le> 0"
      by (simp add: MaxOutputSize_def)
    with step [unfolded z] have
      "f pf vsnprintf cx c argbufsize arg 0
         (MoveCurrentPos 0 (out1\<lparr>Data := write_at (Data out1) outbuf stored\<rparr>)) argbuf' = Some y"
      by (auto split: if_splits)
    from IH [OF this] show False by simp
  qed
qed

lemma retry_loop_zero: "retry_loop pf vsnprintf cx c argbufsize arg 0 b argbuf = None"
  using retry_loop_zero_aux [of pf vsnprintf cx c argbufsize arg 0 b argbuf]
  by (cases "retry_loop pf vsnprintf cx c argbufsize arg 0 b argbuf") auto

text \<open>
  C9 fails on the code. With a caller buffer of fewer than four bytes the initial guess
  \<open>staticbuf_size >> 2\<close> is zero; the test \<open>written < outputSize\<close> then fails for every
  writer, the ceiling is not reached, and doubling zero gives zero: the retry loop never
  exits, so \<open>fmt_core\<close> does not return.
\<close>

theorem fmt_core_small_buffer_diverges:
  assumes "staticbuf_size < 4"
  shows "fmt_buf pf vsnprintf cx staticbuf_size ''%v'' [arg] = None"
proof -
  let ?out = "StackBuffer_new staticbuf_size"
  let ?ab = "replicate argbuf_arraysize NUL"
  have g: "staticbuf_size div 4 = 0"
    using assms by simp
  have at: "fmt_at ''%v'' 0 = CHR ''%''" "fmt_at ''%v'' 1 = CHR ''v''"
    by (simp_all add: fmt_at_def char_at_def)
  have lit: "copy_literal ''%v'' stopAt 0 ?out = (0, ?out)" for stopAt
    by (simp add: copy_literal.simps [of "''%v''" stopAt 0] at)
  have b0: "loop_body pf vsnprintf cx ''%v'' 1 [arg, TNull] 0 0 (- 1) 0 ?out ?ab
              = Some (False, 0, 0, 0, ?out, ?ab)"
    by (simp add: loop_body_def Let_def lit at)
  have b1: "loop_body pf vsnprintf cx ''%v'' 1 [arg, TNull] 0 1 0 0 ?out ?ab = None"
    by (simp add: loop_body_def Let_def at conversion_letters_def argbuf_arraysize_def
          retry_loop_zero split: prod.splits)
  have nz: "CHR ''%'' \<noteq> NUL" "CHR ''v'' \<noteq> NUL"
    by (simp_all add: NUL_def)
  have l1: "fmt_loop pf vsnprintf cx ''%v'' 1 [arg, TNull] 0 1 0 0 ?out ?ab = None"
    by (subst fmt_loop.simps) (simp add: at b1 nz)
  have l0: "fmt_loop pf vsnprintf cx ''%v'' 1 [arg, TNull] 0 0 (- 1) 0 ?out ?ab = None"
    by (subst fmt_loop.simps) (simp add: at b0 l1 nz)
  show ?thesis
    by (simp add: fmt_buf_def fmt_core_def Let_def g l0)
qed

theorem fmt_core_small_buffer_diverges_witness:
  "(3::nat) < 4
   \<and> fmt_buf Win32 vsnprintf_fails default_context 3 ''%v'' [TI32 5] = None
   \<and> fmt_buf Win32 vsnprintf_fails default_context 0 ''%v'' [TCStr ''x''] = None"
  using fmt_core_small_buffer_diverges [of 3 Win32 vsnprintf_fails default_context "TI32 5"]
        fmt_core_small_buffer_diverges [of 0 Win32 vsnprintf_fails default_context "TCStr ''x''"]
  by simp


text \<open>With a guess of at least one the retry loop does exit: by a successful write, or at
  the ceiling.\<close>

lemma retry_loop_returns:
  assumes "1 \<le> outputSize"
    and "c = CHR ''q'' \<longrightarrow> Escape_q cx \<noteq> None" "c = CHR ''Q'' \<longrightarrow> Escape_Q cx \<noteq> None"
  shows "\<exists>y. retry_loop pf vsnprintf cx c argbufsize arg outputSize b argbuf = Some y"
  using assms(1)
proof (induction "nat (MaxOutputSize - outputSize)" arbitrary: outputSize b argbuf rule: less_induct)
  case less
  obtain outbuf out1 where au: "AddUninitialized (nat outputSize) b = (outbuf, out1)"
    by (cases "AddUninitialized (nat outputSize) b")
  obtain stored written argbuf' where w:
    "(if c = CHR ''q'' then map_option (\<lambda>f. (f (nat outputSize) arg, argbuf)) (Escape_q cx)
      else if c = CHR ''Q'' then map_option (\<lambda>f. (f (nat outputSize) arg, argbuf)) (Escape_Q cx)
      else fmt_output_with_snprintf pf vsnprintf c argbuf argbufsize (nat outputSize) arg)
     = Some ((stored, written), argbuf')"
  proof (cases "c = CHR ''q''")
    case True
    with assms(2) obtain f where "Escape_q cx = Some f" by auto
    with True that [of "fst (f (nat outputSize) arg)" "snd (f (nat outputSize) arg)" argbuf]
    show ?thesis by simp
  next
    case nq: False
    show ?thesis
    proof (cases "c = CHR ''Q''")
      case True
      with assms(3) obtain f where "Escape_Q cx = Some f" by auto
      with True nq that [of "fst (f (nat outputSize) arg)" "snd (f (nat outputSize) arg)" argbuf]
      show ?thesis by simp
    next
      case False
      obtain r a where
        "fmt_output_with_snprintf pf vsnprintf c argbuf argbufsize (nat outputSize) arg = Some (r, a)"
        using fmt_output_with_snprintf_returns by blast
      with nq False that [of "fst r" "snd r" a] show ?thesis by simp
    qed
  qed
  show ?case
  proof (cases "(0 \<le> written \<and> written < outputSize) \<or> MaxOutputSize \<le> outputSize")
    case True
    then show ?thesis
      using au w by (subst retry_loop.simps) (auto simp: Let_def)
  next
    case False
    then have dec: "nat (MaxOutputSize - outputSize * 2) < nat (MaxOutputSize - outputSize)"
      using less.prems by simp
    have "1 \<le> outputSize * 2"
      using less.prems by simp
    from less.hyps [OF dec this] obtain y where
      "retry_loop pf vsnprintf cx c argbufsize arg (outputSize * 2)
         (MoveCurrentPos (- outputSize) (out1\<lparr>Data := write_at (Data out1) outbuf stored\<rparr>)) argbuf'
       = Some y"
      by blast
    then show ?thesis
      using au w False by (subst retry_loop.simps) (auto simp: Let_def)
  qed
qed

section \<open>The returned pointer and the caller's capacity\<close>

text \<open>
  C3 fails on the code in both directions. In the zero-argument path the test
  \<open>len \<le> staticbuf_size + 1\<close> returns the caller's buffer for a string of exactly
  \<open>staticbuf_size\<close> characters, which does not fit with its terminator. And a directive
  whose provisional region does not fit moves the buffer to the heap although the
  formatted result would fit.
\<close>

theorem caller_buffer_iff_fits_fails:
  "(\<exists>r. fmt_buf Win32 vsnprintf_fails default_context 4 ''abcd'' [] = Some r
        \<and> Str r = StaticBuf \<and> Len r = 4 \<and> \<not> result_fits r 4)
   \<and> (\<exists>r. fmt_buf Win32 vsnprintf_fails default_context 16 ''ab%v'' [TCStr ''0123456789''] = Some r
        \<and> Str r = HeapBlock 0 \<and> Len r = 12 \<and> result_fits r 16)"
proof -
  have "map_option (\<lambda>r. (Str r, Len r, result_fits r 4))
          (fmt_buf Win32 vsnprintf_fails default_context 4 ''abcd'' [])
        = Some (StaticBuf, 4, False)"
    by code_simp
  moreover have "map_option (\<lambda>r. (Str r, Len r, result_fits r 16))
          (fmt_buf Win32 vsnprintf_fails default_context 16 ''ab%v'' [TCStr ''0123456789''])
        = Some (HeapBlock 0, 12, True)"
    by code_simp
  ultimately show ?thesis by auto
qed

text \<open>
  C10 fails on the code. In the zero-argument path a format string of \<open>staticbuf_size\<close>
  or \<open>staticbuf_size + 1\<close> characters is copied with its terminator into the caller's
  buffer: \<open>len + 1\<close> bytes are stored where \<open>staticbuf_size\<close> are available.
\<close>

theorem zero_argument_copy_overruns:
  assumes "staticbuf_size \<noteq> 0"
    and "strlen fmt = staticbuf_size \<or> strlen fmt = staticbuf_size + 1"
  shows "\<exists>r. fmt_core pf vsnprintf cx fmt 0 args staticbuf_size = Some r
            \<and> Str r = StaticBuf
            \<and> length (Stored r) = strlen fmt + 1
            \<and> staticbuf_size < length (Stored r)"
proof -
  have "length (c_bytes fmt (strlen fmt + 1)) = strlen fmt + 1"
    by (simp add: c_bytes_def)
  then have "length (take (strlen fmt + 1)
               (memcpy (replicate staticbuf_size None) (c_bytes fmt (strlen fmt + 1)) (strlen fmt + 1)))
             = strlen fmt + 1"
    by (simp add: memcpy_whole)
  then show ?thesis
    using assms by (auto simp: fmt_core_def Let_def)
qed

theorem zero_argument_copy_overruns_witness:
  "(4::nat) \<noteq> 0 \<and> strlen ''abcd'' = 4 \<and> strlen ''abcde'' = 4 + 1
   \<and> fmt_core Win32 vsnprintf_fails default_context ''abcd'' 0 [TNull] 4
       = Some \<lparr>Str = StaticBuf, Len = 4, Stored = map Some (''abcd'' @ [NUL])\<rparr>
   \<and> fmt_core Win32 vsnprintf_fails default_context ''abcde'' 0 [TNull] 4
       = Some \<lparr>Str = StaticBuf, Len = 5, Stored = map Some (''abcde'' @ [NUL])\<rparr>"
proof -
  have h: "(4::nat) \<noteq> 0" "strlen ''abcd'' = 4" "strlen ''abcde'' = 4 + 1"
    by (simp_all add: strlen_def c_str_def NUL_def)
  have e: "fmt_core Win32 vsnprintf_fails default_context ''abcd'' 0 [TNull] 4
             = Some \<lparr>Str = StaticBuf, Len = 4, Stored = map Some (''abcd'' @ [NUL])\<rparr>"
          "fmt_core Win32 vsnprintf_fails default_context ''abcde'' 0 [TNull] 4
             = Some \<lparr>Str = StaticBuf, Len = 5, Stored = map Some (''abcde'' @ [NUL])\<rparr>"
    by code_simp+
  show ?thesis
    using zero_argument_copy_overruns [of 4 "''abcd''" Win32 vsnprintf_fails default_context "[TNull]"]
          h e
    by simp
qed


text \<open>
  Outside the zero-argument path the caller's buffer is returned only with the result
  inside it: the buffer leaves the caller's block at the first growth and never comes
  back, so a result at \<open>StaticBuf\<close> was appended within the caller's capacity.
\<close>

lemma Reserve_static: "still_static n b \<Longrightarrow> still_static n (Reserve k b)"
  by (simp add: still_static_def Reserve_def Let_def)

lemma AddUninitialized_static: "still_static n b \<Longrightarrow> still_static n (snd (AddUninitialized k b))"
  using Reserve_static [of n b k] by (simp add: still_static_def AddUninitialized_def Let_def)

lemma Add_static: "still_static n b \<Longrightarrow> still_static n (Add c b)"
  using Reserve_static [of n b 1] by (simp add: still_static_def Add_def AddUninitialized_def Let_def)

lemma still_static_fields [simp]:
  "still_static n (b\<lparr>Data := d\<rparr>) = still_static n b"
  "still_static n (b\<lparr>Pos := p\<rparr>) = still_static n b"
  "still_static n (MoveCurrentPos k b) = still_static n b"
  by (simp_all add: still_static_def MoveCurrentPos_def)

lemma add_range_static: "still_static n b \<Longrightarrow> still_static n (add_range fmt j i b)"
proof (induction fmt j i b rule: add_range.induct)
  case (1 fmt j i out)
  show ?case
  proof (cases "j \<le> i")
    case True
    then show ?thesis
      using "1.IH" [OF True] "1.prems" by (simp add: add_range.simps [of fmt j i out] Add_static)
  next
    case False
    then show ?thesis
      using "1.prems" by (simp add: add_range.simps [of fmt j i out])
  qed
qed

lemma copy_literal_static: "still_static n b \<Longrightarrow> still_static n (snd (copy_literal fmt stopAt i b))"
proof (induction fmt stopAt i b rule: copy_literal.induct)
  case (1 fmt stopAt i out)
  show ?case
  proof (cases "i < stopAt \<and> fmt_at fmt i \<noteq> CHR ''%'' \<and> fmt_at fmt i \<noteq> NUL")
    case True
    then show ?thesis
      using "1.IH" [OF True] "1.prems" by (simp add: copy_literal.simps [of fmt stopAt i out])
  next
    case False
    then show ?thesis
      using "1.prems" by (auto simp: copy_literal.simps [of fmt stopAt i out])
  qed
qed

lemma retry_loop_static_aux:
  "retry_loop pf vsnprintf cx c argbufsize arg outputSize b argbuf = Some y
     \<Longrightarrow> still_static n b \<longrightarrow> still_static n (fst y)"
proof (induction rule: retry_loop.raw_induct [rotated 1, consumes 1])
  case (1 f pf vsnprintf cx c argbufsize arg outputSize out argbuf y)
  note IH = "1"(1) and body = "1"(2)
  show ?case
  proof
    assume st: "still_static n out"
    obtain outbuf out1 where au: "AddUninitialized (nat outputSize) out = (outbuf, out1)"
      by (cases "AddUninitialized (nat outputSize) out")
    have st1: "still_static n out1"
      using AddUninitialized_static [OF st, of "nat outputSize"] au by simp
    from body au obtain stored written argbuf' where
      step: "(if 0 \<le> written \<and> written < outputSize
            then Some (MoveCurrentPos (written - outputSize)
                         (out1\<lparr>Data := write_at (Data out1) outbuf stored\<rparr>), argbuf')
            else if MaxOutputSize \<le> outputSize
                 then Some (out1\<lparr>Data := write_at (Data out1) outbuf stored\<rparr>, argbuf')
                 else f pf vsnprintf cx c argbufsize arg (outputSize * 2)
                        (MoveCurrentPos (- outputSize)
                           (out1\<lparr>Data := write_at (Data out1) outbuf stored\<rparr>)) argbuf') = Some y"
      by (auto simp: Let_def split: Option.bind_splits)
    show "still_static n (fst y)"
    proof (cases "(0 \<le> written \<and> written < outputSize) \<or> MaxOutputSize \<le> outputSize")
      case True
      with step st1 show ?thesis by (auto split: if_splits)
    next
      case False
      with step have "f pf vsnprintf cx c argbufsize arg (outputSize * 2)
                        (MoveCurrentPos (- outputSize)
                           (out1\<lparr>Data := write_at (Data out1) outbuf stored\<rparr>)) argbuf' = Some y"
        by (auto split: if_splits)
      from IH [OF this] st1 show ?thesis by simp
    qed
  qed
qed

lemma loop_body_static:
  assumes "loop_body pf vsnprintf cx fmt nargs args guess i tokenstart iarg b argbuf
             = Some (brk, i', tokenstart', iarg', b', argbuf')"
    and "still_static n b"
  shows "still_static n b'"
proof (cases "tokenstart \<noteq> - 1")
  case True
  show ?thesis
  proof (cases "fmt_at fmt i \<in> set conversion_letters")
    case letter: True
    show ?thesis
    proof (cases "nargs \<le> iarg \<or> int argbuf_arraysize - 1 \<le> i - tokenstart
                  \<or> fmt_at fmt i = CHR ''n''
                  \<or> (fmt_at fmt i = CHR ''q'' \<and> Escape_q cx = None)
                  \<or> (fmt_at fmt i = CHR ''Q'' \<and> Escape_Q cx = None)")
      case pass: True
      then have "b' = add_range fmt tokenstart i b"
        using assms(1) True letter by (auto simp: loop_body_def Let_def)
      then show ?thesis
        using assms(2) by (simp add: add_range_static)
    next
      case subst: False
      obtain argbuf1 argbufsize where ba: "build_argbuf fmt tokenstart i argbuf 0 = (argbuf1, argbufsize)"
        by (cases "build_argbuf fmt tokenstart i argbuf 0")
      from assms(1) True letter subst ba obtain ab where
        "retry_loop pf vsnprintf cx (fmt_at fmt i) argbufsize (arg_at args iarg) (int guess) b argbuf1
           = Some (b', ab)"
        by (auto simp: loop_body_def Let_def split: Option.bind_splits)
      from retry_loop_static_aux [OF this, of n] assms(2) show ?thesis by simp
    qed
  next
    case noletter: False
    then have "b' = Add (CHR ''%'') b \<or> b' = b"
      using assms(1) True by (auto simp: loop_body_def Let_def split: if_splits)
    then show ?thesis
      using assms(2) by (auto simp: Add_static)
  qed
next
  case False
  obtain i1 out1 where cl: "copy_literal fmt (i + int (RemainingSpace b)) i b = (i1, out1)"
    by (cases "copy_literal fmt (i + int (RemainingSpace b)) i b")
  have ok1: "still_static n out1"
    using copy_literal_static [OF assms(2), of fmt "i + int (RemainingSpace b)" i] cl by simp
  have "b' = out1 \<or> b' = Reserve 1 out1"
    using assms(1) False cl by (auto simp: loop_body_def Let_def split: if_splits)
  then show ?thesis
    using ok1 by (auto simp: Reserve_static)
qed

lemma fmt_loop_static_aux:
  "fmt_loop pf vsnprintf cx fmt nargs args guess i tokenstart iarg b argbuf = Some b'
     \<Longrightarrow> still_static n b \<longrightarrow> still_static n b'"
proof (induction rule: fmt_loop.raw_induct [rotated 1, consumes 1])
  case (1 f pf vsnprintf cx fmt nargs args guess i tokenstart iarg out argbuf y)
  note IH = "1"(1) and body = "1"(2)
  show ?case
  proof
    assume st: "still_static n out"
    show "still_static n y"
    proof (cases "fmt_at fmt i = NUL")
      case True
      with body st show ?thesis by simp
    next
      case False
      with body obtain brk i' ts' iarg' out' argbuf' where
        lb: "loop_body pf vsnprintf cx fmt nargs args guess i tokenstart iarg out argbuf
               = Some (brk, i', ts', iarg', out', argbuf')"
        and rest: "(if brk then Some out'
                    else f pf vsnprintf cx fmt nargs args guess (i' + 1) ts' iarg' out' argbuf')
                   = Some y"
        by (auto split: Option.bind_splits)
      have st': "still_static n out'"
        using lb st by (rule loop_body_static)
      show ?thesis
      proof (cases brk)
        case True
        with rest st' show ?thesis by simp
      next
        case False
        with rest have "f pf vsnprintf cx fmt nargs args guess (i' + 1) ts' iarg' out' argbuf' = Some y"
          by simp
        from IH [OF this] st' show ?thesis by blast
      qed
    qed
  qed
qed

lemma fmt_core_static_result_fits:
  assumes "fmt_core pf vsnprintf cx fmt nargs args staticbuf_size = Some r"
    and "nargs \<noteq> 0" and "Str r = StaticBuf"
  shows "result_fits r staticbuf_size \<and> length (Stored r) = Len r + 1
         \<and> length (Stored r) \<le> staticbuf_size"
proof -
  let ?b0 = "StackBuffer_new staticbuf_size"
  from assms(1,2) obtain out where
    lp: "fmt_loop pf vsnprintf cx fmt nargs args (staticbuf_size div 4) 0 (- 1) 0 ?b0
           (replicate argbuf_arraysize NUL) = Some out"
    and r: "r = \<lparr>Str = Buffer (Add NUL out), Len = Pos (Add NUL out) - 1,
                 Stored = take (Pos (Add NUL out)) (Data (Add NUL out))\<rparr>"
    by (auto simp: fmt_core_def Let_def split: Option.bind_splits)
  have ok0: "buffer_ok ?b0" by (rule StackBuffer_new_ok)
  have st0: "still_static staticbuf_size ?b0"
    by (simp add: still_static_def StackBuffer_new_def)
  have ok: "buffer_ok (Add NUL out)"
    using fmt_loop_ok [OF lp ok0] by (rule Add_ok)
  have "still_static staticbuf_size out"
    using fmt_loop_static_aux [OF lp, of staticbuf_size] st0 by simp
  then have "still_static staticbuf_size (Add NUL out)"
    by (rule Add_static)
  with r assms(3) have cap: "Capacity (Add NUL out) = staticbuf_size"
    by (simp add: still_static_def)
  have pos: "Pos (Add NUL out) = Pos out + 1"
    by (rule Add_Pos)
  show ?thesis
    using ok cap pos r by (simp add: result_fits_def buffer_ok_def)
qed

section \<open>The scenarios of the specification\<close>

text \<open>The model run on the concrete scenarios that need no backend: substitution of a
  string and an integer, hexadecimal, a format string without arguments, and \<open>q\<close> without
  a callback.\<close>

lemma scenarios:
  "map_option result_text
     (fmt_buf Win32 vsnprintf_fails default_context 256 ''%v %v'' [TCStr ''abc'', TI32 123])
     = Some (map Some ''abc 123'')"
  "map_option result_text (fmt_buf Win32 vsnprintf_fails default_context 256 ''%x'' [TI32 255])
     = Some (map Some ''ff'')"
  "map_option result_text (fmt_buf Win32 vsnprintf_fails default_context 256 ''hello'' [])
     = Some (map Some ''hello'')"
  "map_option result_text (fmt_buf Win32 vsnprintf_fails default_context 256 ''%q'' [TI32 42])
     = Some (map Some ''%q'')"
  by code_simp+

end
